theory Spec2Isabelle
  imports Main "HOL-Library.Sublist" "HOL-Library.AList"
begin

section \<open>Values of the program\<close>

text \<open>
  The values that \<^verbatim>\<open>response.json()\<close> hands to the program: Python's \<^verbatim>\<open>None\<close>,
  booleans, integers, strings, lists and dicts. A dict is the association list of its
  items, looked up with \<open>map_of\<close>. Numbers with a fraction are outside the model.
\<close>

datatype json =
    JNull
  | JBool bool
  | JNum int
  | JStr string
  | JArr "json list"
  | JObj "(string \<times> json) list"

text \<open>
  An element of the markup that \<^verbatim>\<open>BeautifulSoup(response.text, features="html.parser")\<close>
  builds, with its tag name and its attributes; a document is the list of its elements in
  document order.
\<close>

record element =
  el_name :: string
  el_attrs :: "(string \<times> string) list"

text \<open>
  A \<^verbatim>\<open>requests.Response\<close>: \<open>status_code\<close>, \<open>resp_text\<close> (the attribute \<^verbatim>\<open>text\<close>),
  \<open>resp_json\<close> (what \<^verbatim>\<open>json()\<close> returns, \<open>None\<close> when the body does not decode) and
  \<open>markup\<close> (what the HTML parser makes of the body).
\<close>

record response =
  status_code :: nat
  resp_text :: string
  resp_json :: "json option"
  markup :: "element list"

text \<open>
  Exceptions are values. \<open>HTTPError\<close> carries its \<^verbatim>\<open>response\<close> attribute, which
  \<^verbatim>\<open>raise_for_status\<close> always sets; \<open>OtherException\<close> stands for every class the program
  never names (connection errors, time-outs, \<^verbatim>\<open>SystemExit\<close>, ...).
\<close>

datatype exn =
    KeyboardInterrupt
  | HTTPError "response option"
  | KeyError string
  | TypeError
  | AttributeError
  | JSONDecodeError
  | OtherException string

text \<open>
  A \<^verbatim>\<open>datetime\<close> is a number of microseconds on the UTC time line, a \<^verbatim>\<open>timedelta\<close> a
  difference of two of them. The limits of Python's \<^verbatim>\<open>datetime\<close> (years 1 to 9999) are
  outside the model.
\<close>

type_synonym datetime = int

definition timedelta_minutes :: "int \<Rightarrow> int" where
  "timedelta_minutes m = m * 60 * 1000000"

text \<open>The keys of a Python set: equal keys are one member, so \<^verbatim>\<open>True\<close> is \<^verbatim>\<open>1\<close>.\<close>

datatype key = KNone | KInt int | KStr string

fun hash_key :: "json \<Rightarrow> exn + key" where
  "hash_key JNull = Inr KNone"
| "hash_key (JBool b) = Inr (KInt (if b then 1 else 0))"
| "hash_key (JNum n) = Inr (KInt n)"
| "hash_key (JStr s) = Inr (KStr s)"
| "hash_key (JArr xs) = Inl TypeError"
| "hash_key (JObj kvs) = Inl TypeError"

text \<open>Sequencing of steps that may raise.\<close>

definition and_then :: "exn + 'a \<Rightarrow> ('a \<Rightarrow> exn + 'b) \<Rightarrow> exn + 'b" where
  "and_then r f = (case r of Inl e \<Rightarrow> Inl e | Inr x \<Rightarrow> f x)"

text \<open>\<^verbatim>\<open>obj[k]\<close> with a string \<open>k\<close>: only a dict can be subscripted by a string.\<close>

fun getitem :: "json \<Rightarrow> string \<Rightarrow> exn + json" where
  "getitem (JObj kvs) k = (case map_of kvs k of Some v \<Rightarrow> Inr v | None \<Rightarrow> Inl (KeyError k))"
| "getitem JNull k = Inl TypeError"
| "getitem (JBool b) k = Inl TypeError"
| "getitem (JNum n) k = Inl TypeError"
| "getitem (JStr s) k = Inl TypeError"
| "getitem (JArr xs) k = Inl TypeError"

text \<open>\<^verbatim>\<open>obj.get(k, default)\<close>: only a dict has the method.\<close>

fun dict_get :: "json \<Rightarrow> string \<Rightarrow> json \<Rightarrow> exn + json" where
  "dict_get (JObj kvs) k dflt = (case map_of kvs k of Some v \<Rightarrow> Inr v | None \<Rightarrow> Inr dflt)"
| "dict_get JNull k dflt = Inl AttributeError"
| "dict_get (JBool b) k dflt = Inl AttributeError"
| "dict_get (JNum n) k dflt = Inl AttributeError"
| "dict_get (JStr s) k dflt = Inl AttributeError"
| "dict_get (JArr xs) k dflt = Inl AttributeError"

text \<open>
  Iterating a value: a list gives its items, a dict its keys, a string its characters;
  anything else is not iterable.
\<close>

fun iterate :: "json \<Rightarrow> exn + json list" where
  "iterate (JArr xs) = Inr xs"
| "iterate (JObj kvs) = Inr (map (\<lambda>kv. JStr (fst kv)) kvs)"
| "iterate (JStr s) = Inr (map (\<lambda>c. JStr [c]) s)"
| "iterate JNull = Inl TypeError"
| "iterate (JBool b) = Inl TypeError"
| "iterate (JNum n) = Inl TypeError"

section \<open>The environment and the state\<close>

text \<open>
  The two requests the program issues through a session, each with the headers of the
  session at the time: the GET of the landing page, and the POST of the query document
  with its \<^verbatim>\<open>since\<close> variable. The variable is kept as the \<^verbatim>\<open>datetime\<close> that
  \<^verbatim>\<open>isoformat()\<close> renders.
\<close>

datatype request =
    GET string "(string \<times> string) list"
  | POST string "(string \<times> string) list" string datetime

text \<open>
  A message handed to \<^verbatim>\<open>sqs.send_message\<close>. The body is kept as the event that
  \<^verbatim>\<open>json.dumps\<close> renders; the de-duplication identifier is a Python value, \<open>JNull\<close>
  for \<^verbatim>\<open>None\<close>.
\<close>

record sqs_message =
  QueueUrl :: string
  MessageBody :: json
  MessageDeduplicationId :: json
  MessageGroupId :: string

text \<open>Everything the program does to the outside world, in the order it does it.\<close>

datatype action =
    UtcNow datetime
  | Request request
  | PostSlack json
  | SendMessage sqs_message
  | LogCsrfInvalid
  | LogIgnoring json
  | LogPosting json
  | LogException exn
  | PrintResponse string
  | Sleep nat

text \<open>
  The environment answers each effect. The first argument of every answer is the number of
  effects performed so far, so the same request may be answered differently at different
  times. \<open>query_graphql\<close> is the text of the file \<^verbatim>\<open>query.graphql\<close> (which is not
  among the sources; it is taken to exist), \<open>default_headers\<close> the headers of a fresh
  \<^verbatim>\<open>requests.Session()\<close>, \<open>sqs_queue\<close> the environment variable \<^verbatim>\<open>SQS_QUEUE\<close>,
  \<open>sleeping\<close> the outcome of \<^verbatim>\<open>time.sleep\<close>. An exception that arrives from outside,
  such as \<^verbatim>\<open>KeyboardInterrupt\<close>, arrives as the answer to an effect.

  \<open>slack\<close> answers a call of \<^verbatim>\<open>post_slack(payload)\<close>: the function builds an attachment
  from the payload and posts it to the webhook; it reads and writes neither the session nor
  the set of seen identifiers, and returns nothing, so all that the loop observes of it is
  whether it returns (\<open>None\<close>) or raises.
\<close>

record env =
  utcnow :: "nat \<Rightarrow> datetime"
  http :: "nat \<Rightarrow> request \<Rightarrow> exn + response"
  slack :: "nat \<Rightarrow> json \<Rightarrow> exn option"
  sqs :: "nat \<Rightarrow> sqs_message \<Rightarrow> exn option"
  sleeping :: "nat \<Rightarrow> exn option"
  query_graphql :: string
  default_headers :: "(string \<times> string) list"
  sqs_queue :: "string option"

text \<open>
  The state: the headers of the session, the set \<^verbatim>\<open>seen\<close> of the worker's \<^verbatim>\<open>main\<close>
  (the poll lambda has none and leaves it alone), and the effects so far.
\<close>

record state =
  headers :: "(string \<times> string) list"
  seen :: "key set"
  trace :: "action list"

definition emit :: "action \<Rightarrow> state \<Rightarrow> state" where
  "emit a s = s\<lparr>trace := trace s @ [a]\<rparr>"

definition send :: "env \<Rightarrow> request \<Rightarrow> state \<Rightarrow> (exn + response) \<times> state" where
  "send env rq s = (http env (length (trace s)) rq, emit (Request rq) s)"

text \<open>\<^verbatim>\<open>Response.raise_for_status()\<close> of requests raises for the statuses 400 to 599.\<close>

definition raise_for_status :: "response \<Rightarrow> exn + unit" where
  "raise_for_status r =
     (if 400 \<le> status_code r \<and> status_code r < 600 then Inl (HTTPError (Some r)) else Inr ())"

definition hacktivity_url :: string where
  "hacktivity_url = ''https://hackerone.com/hacktivity''"

definition graphql_url :: string where
  "graphql_url = ''https://hackerone.com/graphql''"

definition user_agent :: string where
  "user_agent = ''github.com/bored-engineer/hackeroni-slack-disclosure-bot''"

definition standard_error :: string where
  "standard_error = ''\"STANDARD_ERROR\"''"

section \<open>worker.py\<close>

text \<open>\<^verbatim>\<open>soup.select_one('meta[name="csrf-token"]')\<close>: the first such element, if any.\<close>

definition select_one_csrf :: "element list \<Rightarrow> element option" where
  "select_one_csrf doc =
     find (\<lambda>el. el_name el = ''meta'' \<and> map_of (el_attrs el) ''name'' = Some ''csrf-token'') doc"

text \<open>
  \<^verbatim>\<open>select_one(...)["content"]\<close>: subscripting \<^verbatim>\<open>None\<close> is a TypeError, a tag without
  the attribute a KeyError.
\<close>

definition csrf_content :: "element list \<Rightarrow> exn + string" where
  "csrf_content doc =
     (case select_one_csrf doc of
        None \<Rightarrow> Inl TypeError
      | Some el \<Rightarrow>
          (case map_of (el_attrs el) ''content'' of
             None \<Rightarrow> Inl (KeyError ''content'')
           | Some tok \<Rightarrow> Inr tok))"

definition refresh_csrf :: "env \<Rightarrow> state \<Rightarrow> (exn + unit) \<times> state" where
  "refresh_csrf env s =
     (case send env (GET hacktivity_url (headers s)) s of
        (Inl e, s1) \<Rightarrow> (Inl e, s1)
      | (Inr r, s1) \<Rightarrow>
          (case and_then (raise_for_status r) (\<lambda>_. csrf_content (markup r)) of
             Inl e \<Rightarrow> (Inl e, s1)
           | Inr tok \<Rightarrow>
               (Inr (), s1\<lparr>headers := AList.update ''x-csrf-token'' tok (headers s1)\<rparr>)))"

text \<open>
  \<^verbatim>\<open>list(filter(lambda node: node["__typename"] == "Disclosed", nodes))\<close>: the first node
  that cannot be subscripted, or has no such key, raises.
\<close>

fun filter_disclosed :: "json list \<Rightarrow> exn + json list" where
  "filter_disclosed [] = Inr []"
| "filter_disclosed (node # nodes) =
     (case getitem node ''__typename'' of
        Inl e \<Rightarrow> Inl e
      | Inr t \<Rightarrow>
          (case filter_disclosed nodes of
             Inl e \<Rightarrow> Inl e
           | Inr rest \<Rightarrow> Inr (if t = JStr ''Disclosed'' then node # rest else rest)))"

text \<open>\<^verbatim>\<open>response.json()["data"]["hacktivity_items"]["nodes"]\<close>\<close>

definition response_nodes :: "response \<Rightarrow> exn + json" where
  "response_nodes r =
     (case resp_json r of
        None \<Rightarrow> Inl JSONDecodeError
      | Some j \<Rightarrow>
          and_then (getitem j ''data'') (\<lambda>d.
          and_then (getitem d ''hacktivity_items'') (\<lambda>h.
          getitem h ''nodes'')))"

definition fetch_hacktivity :: "env \<Rightarrow> datetime \<Rightarrow> state \<Rightarrow> (exn + json list) \<times> state" where
  "fetch_hacktivity env since s =
     (case send env (POST graphql_url (headers s) (query_graphql env) since) s of
        (Inl e, s1) \<Rightarrow> (Inl e, s1)
      | (Inr r, s1) \<Rightarrow>
          (and_then (raise_for_status r) (\<lambda>_.
           and_then (response_nodes r) (\<lambda>nodes.
           and_then (iterate nodes) filter_disclosed)), s1))"

definition post_slack :: "env \<Rightarrow> json \<Rightarrow> state \<Rightarrow> (exn + unit) \<times> state" where
  "post_slack env payload s =
     ((case slack env (length (trace s)) payload of Some e \<Rightarrow> Inl e | None \<Rightarrow> Inr ()),
      emit (PostSlack payload) s)"

text \<open>\<^verbatim>\<open>event["report"]["_id"]\<close>\<close>

definition report_id_of :: "json \<Rightarrow> exn + json" where
  "report_id_of event = and_then (getitem event ''report'') (\<lambda>r. getitem r ''_id'')"

text \<open>The \<^verbatim>\<open>for event in events\<close> loop of \<^verbatim>\<open>main\<close>.\<close>

fun for_events :: "env \<Rightarrow> json list \<Rightarrow> state \<Rightarrow> (exn + unit) \<times> state" where
  "for_events env [] s = (Inr (), s)"
| "for_events env (event # events) s =
     (case report_id_of event of
        Inl e \<Rightarrow> (Inl e, s)
      | Inr report_id \<Rightarrow>
          (case hash_key report_id of
             Inl e \<Rightarrow> (Inl e, s)
           | Inr k \<Rightarrow>
               if k \<in> seen s then for_events env events (emit (LogIgnoring report_id) s)
               else
                 (case post_slack env event
                         (emit (LogPosting report_id) (s\<lparr>seen := insert k (seen s)\<rparr>)) of
                    (Inl e, s1) \<Rightarrow> (Inl e, s1)
                  | (Inr u, s1) \<Rightarrow> for_events env events s1)))"

text \<open>
  The inner \<^verbatim>\<open>try\<close> of \<^verbatim>\<open>main\<close>: the fetch, and the handler of \<^verbatim>\<open>HTTPError\<close>.
  Reading \<^verbatim>\<open>e.response.status_code\<close> of an error without a response is an
  AttributeError.
\<close>

definition csrf_expired :: "response \<Rightarrow> bool" where
  "csrf_expired r \<longleftrightarrow> \<not> (status_code r \<noteq> 500 \<or> \<not> sublist standard_error (resp_text r))"

definition fetch_events :: "env \<Rightarrow> datetime \<Rightarrow> state \<Rightarrow> (exn + json list) \<times> state" where
  "fetch_events env since s =
     (case fetch_hacktivity env since s of
        (Inr events, s1) \<Rightarrow> (Inr events, s1)
      | (Inl (HTTPError None), s1) \<Rightarrow> (Inl AttributeError, s1)
      | (Inl (HTTPError (Some r)), s1) \<Rightarrow>
          if \<not> csrf_expired r then (Inl (HTTPError (Some r)), s1)
          else
            (case refresh_csrf env (emit LogCsrfInvalid s1) of
               (Inl e, s2) \<Rightarrow> (Inl e, s2)
             | (Inr u, s2) \<Rightarrow> fetch_hacktivity env since s2)
      | (Inl e, s1) \<Rightarrow> (Inl e, s1))"

text \<open>The body of the outer \<^verbatim>\<open>try\<close>: one polling cycle.\<close>

definition cycle :: "env \<Rightarrow> state \<Rightarrow> (exn + unit) \<times> state" where
  "cycle env s =
     (let now = utcnow env (length (trace s));
          since = now - timedelta_minutes 15
      in case fetch_events env since (emit (UtcNow now) s) of
           (Inl e, s1) \<Rightarrow> (Inl e, s1)
         | (Inr events, s1) \<Rightarrow> for_events env events s1)"

definition sleep :: "env \<Rightarrow> nat \<Rightarrow> state \<Rightarrow> (exn + unit) \<times> state" where
  "sleep env secs s =
     ((case sleeping env (length (trace s)) of Some e \<Rightarrow> Inl e | None \<Rightarrow> Inr ()),
      emit (Sleep secs) s)"

text \<open>
  The \<^verbatim>\<open>while True\<close> loop, cut after a number of cycles: \<open>Running\<close> says that the loop
  is at the top of its next cycle, \<open>Stopped\<close> that it left through \<^verbatim>\<open>break\<close>, and
  \<open>Raised\<close> that an exception left \<^verbatim>\<open>main\<close> (only \<^verbatim>\<open>time.sleep\<close> is outside the
  \<^verbatim>\<open>try\<close>).
\<close>

datatype status = Running | Stopped | Raised exn

definition handle :: "(exn + unit) \<times> state \<Rightarrow> state" where
  "handle rs = (case fst rs of Inl e \<Rightarrow> emit (LogException e) (snd rs) | Inr u \<Rightarrow> snd rs)"

fun main_loop :: "env \<Rightarrow> nat \<Rightarrow> state \<Rightarrow> status \<times> state" where
  "main_loop env 0 s = (Running, s)"
| "main_loop env (Suc n) s =
     (if fst (cycle env s) = Inl KeyboardInterrupt then (Stopped, snd (cycle env s))
      else
        (case sleep env 60 (handle (cycle env s)) of
           (Inl e, s1) \<Rightarrow> (Raised e, s1)
         | (Inr u, s1) \<Rightarrow> main_loop env n s1))"

text \<open>The session of the module, and \<^verbatim>\<open>main\<close> with its empty set.\<close>

definition worker_init :: "env \<Rightarrow> state" where
  "worker_init env =
     \<lparr>headers = AList.update ''User-Agent'' user_agent (default_headers env),
      seen = {}, trace = []\<rparr>"

definition main :: "env \<Rightarrow> nat \<Rightarrow> status \<times> state" where
  "main env n = main_loop env n (worker_init env)"

section \<open>poll/lambda.py\<close>

definition poll_refresh_csrf :: "env \<Rightarrow> state \<Rightarrow> (exn + unit) \<times> state" where
  "poll_refresh_csrf env s =
     (case send env (GET hacktivity_url (headers s)) s of
        (Inl e, s1) \<Rightarrow> (Inl e, s1)
      | (Inr r, s1) \<Rightarrow>
          (case and_then (raise_for_status r) (\<lambda>_. csrf_content (markup r)) of
             Inl e \<Rightarrow> (Inl e, s1)
           | Inr tok \<Rightarrow>
               (Inr (), s1\<lparr>headers := AList.update ''x-csrf-token'' tok (headers s1)\<rparr>)))"

definition poll_fetch_hacktivity :: "env \<Rightarrow> datetime \<Rightarrow> state \<Rightarrow> (exn + json) \<times> state" where
  "poll_fetch_hacktivity env since s =
     (case send env (POST graphql_url (headers s) (query_graphql env) since) s of
        (Inl e, s1) \<Rightarrow> (Inl e, s1)
      | (Inr r, s1) \<Rightarrow>
          (case raise_for_status r of
             Inl e \<Rightarrow> (Inl e, s1)
           | Inr u \<Rightarrow> (response_nodes r, emit (PrintResponse (resp_text r)) s1)))"

text \<open>\<^verbatim>\<open>event.get("report", {}).get("_id")\<close>\<close>

definition dedup_id :: "json \<Rightarrow> exn + json" where
  "dedup_id event =
     and_then (dict_get event ''report'' (JObj [])) (\<lambda>r. dict_get r ''_id'' JNull)"

text \<open>
  One call of \<^verbatim>\<open>sqs.send_message\<close>; its arguments are evaluated in the order written,
  \<^verbatim>\<open>os.environ["SQS_QUEUE"]\<close> first.
\<close>

definition send_message :: "env \<Rightarrow> json \<Rightarrow> state \<Rightarrow> (exn + unit) \<times> state" where
  "send_message env event s =
     (case sqs_queue env of
        None \<Rightarrow> (Inl (KeyError ''SQS_QUEUE''), s)
      | Some url \<Rightarrow>
          (case dedup_id event of
             Inl e \<Rightarrow> (Inl e, s)
           | Inr d \<Rightarrow>
               (let m = \<lparr>QueueUrl = url, MessageBody = event,
                         MessageDeduplicationId = d, MessageGroupId = ''hacktivity''\<rparr>
                in ((case sqs env (length (trace s)) m of Some e \<Rightarrow> Inl e | None \<Rightarrow> Inr ()),
                    emit (SendMessage m) s))))"

fun send_all :: "env \<Rightarrow> json list \<Rightarrow> state \<Rightarrow> (exn + unit) \<times> state" where
  "send_all env [] s = (Inr (), s)"
| "send_all env (event # events) s =
     (case send_message env event s of
        (Inl e, s1) \<Rightarrow> (Inl e, s1)
      | (Inr u, s1) \<Rightarrow> send_all env events s1)"

definition poll_init :: "env \<Rightarrow> state" where
  "poll_init env = \<lparr>headers = default_headers env, seen = {}, trace = []\<rparr>"

definition lambda_handler :: "env \<Rightarrow> (exn + unit) \<times> state" where
  "lambda_handler env =
     (case poll_refresh_csrf env (poll_init env) of
        (Inl e, s1) \<Rightarrow> (Inl e, s1)
      | (Inr u, s1) \<Rightarrow>
          (let now = utcnow env (length (trace s1));
               since = now - timedelta_minutes 4
           in case poll_fetch_hacktivity env since (emit (UtcNow now) s1) of
                (Inl e, s2) \<Rightarrow> (Inl e, s2)
              | (Inr nodes, s2) \<Rightarrow>
                  (case iterate nodes of
                     Inl e \<Rightarrow> (Inl e, s2)
                   | Inr events \<Rightarrow> send_all env events s2)))"

section \<open>Notions used to state the properties\<close>

text \<open>A node carries the discriminator \<^verbatim>\<open>Disclosed\<close>.\<close>

definition is_disclosed :: "json \<Rightarrow> bool" where
  "is_disclosed node \<longleftrightarrow> getitem node ''__typename'' = Inr (JStr ''Disclosed'')"

text \<open>The member of \<^verbatim>\<open>seen\<close> that stands for an event: the key of its \<^verbatim>\<open>report._id\<close>.\<close>

definition report_key :: "json \<Rightarrow> exn + key" where
  "report_key event = and_then (report_id_of event) hash_key"

text \<open>The payloads handed to \<^verbatim>\<open>post_slack\<close>, and the requests issued, in order.\<close>

fun slack_posts :: "action list \<Rightarrow> json list" where
  "slack_posts [] = []"
| "slack_posts (PostSlack p # as) = p # slack_posts as"
| "slack_posts (a # as) = slack_posts as"

fun requests_of :: "action list \<Rightarrow> request list" where
  "requests_of [] = []"
| "requests_of (Request rq # as) = rq # requests_of as"
| "requests_of (a # as) = requests_of as"

text \<open>
  The outcome of a fetch is the failure that the handler of \<^verbatim>\<open>main\<close> answers with a
  refresh: an \<open>HTTPError\<close> whose response has status 500 and a text with the marker.
\<close>

definition expired_failure :: "exn + 'a \<Rightarrow> bool" where
  "expired_failure x =
     (case x of
        Inl (HTTPError (Some r)) \<Rightarrow> status_code r = 500 \<and> sublist standard_error (resp_text r)
      | _ \<Rightarrow> False)"

text \<open>The request of \<^verbatim>\<open>fetch_hacktivity\<close> in a state, for a window start.\<close>

definition fetch_request :: "env \<Rightarrow> state \<Rightarrow> datetime \<Rightarrow> request" where
  "fetch_request env s since = POST graphql_url (headers s) (query_graphql env) since"

text \<open>
  The set \<^verbatim>\<open>seen\<close> holds exactly the keys of the events handed to \<^verbatim>\<open>post_slack\<close>,
  and no two of these events have the same key.
\<close>

definition ledger_inv :: "state \<Rightarrow> bool" where
  "ledger_inv s \<longleftrightarrow>
     distinct (map report_key (slack_posts (trace s))) \<and>
     set (map report_key (slack_posts (trace s))) = Inr ` seen s"

text \<open>
  The steps of the cycle that starts in state \<open>s\<close>: the clock reading, the first fetch,
  the refresh that follows an expired token, the fetch after it, the outcome of the inner
  \<^verbatim>\<open>try\<close>, and the requests that the whole cycle issues.
\<close>

definition cycle_now :: "env \<Rightarrow> state \<Rightarrow> datetime" where
  "cycle_now env s = utcnow env (length (trace s))"

definition first_fetch :: "env \<Rightarrow> state \<Rightarrow> (exn + json list) \<times> state" where
  "first_fetch env s =
     fetch_hacktivity env (cycle_now env s - timedelta_minutes 15) (emit (UtcNow (cycle_now env s)) s)"

definition refresh_attempt :: "env \<Rightarrow> state \<Rightarrow> (exn + unit) \<times> state" where
  "refresh_attempt env s = refresh_csrf env (emit LogCsrfInvalid (snd (first_fetch env s)))"

definition second_fetch :: "env \<Rightarrow> state \<Rightarrow> (exn + json list) \<times> state" where
  "second_fetch env s =
     fetch_hacktivity env (cycle_now env s - timedelta_minutes 15) (snd (refresh_attempt env s))"

definition issued :: "env \<Rightarrow> state \<Rightarrow> request list" where
  "issued env s = drop (length (requests_of (trace s))) (requests_of (trace (snd (cycle env s))))"

definition fetched :: "env \<Rightarrow> state \<Rightarrow> (exn + json list) \<times> state" where
  "fetched env s =
     fetch_events env (cycle_now env s - timedelta_minutes 15) (emit (UtcNow (cycle_now env s)) s)"

text \<open>
  Of a list of requests: which are refreshes of the token, and the window starts (the
  \<^verbatim>\<open>since\<close> variables) of the fetches. Of a trace: the number of sleeps, that is of
  completed cycles, and the messages handed to the queue.
\<close>

fun is_refresh :: "request \<Rightarrow> bool" where
  "is_refresh (GET u h) = True"
| "is_refresh (POST u h q t) = False"

fun windows :: "request list \<Rightarrow> datetime list" where
  "windows [] = []"
| "windows (POST u h q t # rqs) = t # windows rqs"
| "windows (GET u h # rqs) = windows rqs"

fun sleeps :: "action list \<Rightarrow> nat" where
  "sleeps [] = 0"
| "sleeps (Sleep secs # as) = Suc (sleeps as)"
| "sleeps (a # as) = sleeps as"

fun sent_messages :: "action list \<Rightarrow> sqs_message list" where
  "sent_messages [] = []"
| "sent_messages (SendMessage m # as) = m # sent_messages as"
| "sent_messages (a # as) = sent_messages as"


text \<open>The first two steps of \<^verbatim>\<open>lambda_handler\<close>: the refresh, and the fetch after it.\<close>

definition poll_refreshed :: "env \<Rightarrow> (exn + unit) \<times> state" where
  "poll_refreshed env = poll_refresh_csrf env (poll_init env)"

definition poll_fetched :: "env \<Rightarrow> (exn + json) \<times> state" where
  "poll_fetched env =
     poll_fetch_hacktivity env (utcnow env 1 - timedelta_minutes 4)
       (emit (UtcNow (utcnow env 1)) (snd (poll_refreshed env)))"

section \<open>Concrete environments\<close>

text \<open>
  A node with a discriminator and a report identifier, the responses of the server, two
  servers (one that answers every query, one that wants the token of its landing page,
  which it serves with a given status), and a Slack webhook that is up or down.
\<close>

definition report_node :: "string \<Rightarrow> string \<Rightarrow> json" where
  "report_node typename rid =
     JObj [(''__typename'', JStr typename), (''report'', JObj [(''_id'', JStr rid)])]"

definition nodes_response :: "json list \<Rightarrow> response" where
  "nodes_response nodes =
     \<lparr>status_code = 200, resp_text = [],
      resp_json = Some (JObj [(''data'', JObj [(''hacktivity_items'', JObj [(''nodes'', JArr nodes)])])]),
      markup = []\<rparr>"

definition expired_response :: response where
  "expired_response =
     \<lparr>status_code = 500, resp_text = ''{\"errors\":[{\"type\":\"STANDARD_ERROR\"}]}'',
      resp_json = None, markup = []\<rparr>"

definition landing_response :: "nat \<Rightarrow> string \<Rightarrow> response" where
  "landing_response code tok =
     \<lparr>status_code = code, resp_text = [], resp_json = None,
      markup = [\<lparr>el_name = ''meta'', el_attrs = [(''name'', ''csrf-token''), (''content'', tok)]\<rparr>]\<rparr>"

definition open_server :: "json list \<Rightarrow> nat \<Rightarrow> request \<Rightarrow> exn + response" where
  "open_server nodes i rq =
     (case rq of GET u h \<Rightarrow> Inr (landing_response 200 ''tok'')
      | POST u h q t \<Rightarrow> Inr (nodes_response nodes))"

definition token_server :: "nat \<Rightarrow> json list \<Rightarrow> nat \<Rightarrow> request \<Rightarrow> exn + response" where
  "token_server code nodes i rq =
     (case rq of GET u h \<Rightarrow> Inr (landing_response code ''tok'')
      | POST u h q t \<Rightarrow>
          if map_of h ''x-csrf-token'' = Some ''tok'' then Inr (nodes_response nodes)
          else Inr expired_response)"

definition test_env :: "(nat \<Rightarrow> request \<Rightarrow> exn + response) \<Rightarrow> (nat \<Rightarrow> json \<Rightarrow> exn option) \<Rightarrow> env" where
  "test_env srv sl =
     \<lparr>utcnow = (\<lambda>i. 1000000000 + 61000000 * int i), http = srv, slack = sl,
      sqs = (\<lambda>i m. None), sleeping = (\<lambda>i. None), query_graphql = ''query'',
      default_headers = [], sqs_queue = Some ''queue''\<rparr>"

definition slack_up :: "nat \<Rightarrow> json \<Rightarrow> exn option" where
  "slack_up i p = None"

definition slack_down :: "nat \<Rightarrow> json \<Rightarrow> exn option" where
  "slack_down i p = Some (OtherException ''ConnectionError'')"

definition down_env :: "json list \<Rightarrow> env" where
  "down_env nodes = test_env (open_server nodes) slack_down"

definition up_env :: "json list \<Rightarrow> env" where
  "up_env nodes = test_env (open_server nodes) slack_up"

definition token_env :: "nat \<Rightarrow> json list \<Rightarrow> env" where
  "token_env code nodes = test_env (token_server code nodes) slack_up"

text \<open>A network that is down, and a batch with one node that is not a disclosure.\<close>

definition offline_env :: env where
  "offline_env = test_env (\<lambda>i rq. Inl (OtherException ''ConnectionError'')) slack_up"

definition mixed_nodes :: "json list" where
  "mixed_nodes =
     [report_node ''Disclosed'' ''1'', report_node ''Other'' ''2'', report_node ''Disclosed'' ''3'']"

section \<open>Effects of the single operations\<close>

lemma trace_emit [simp]: "trace (emit a s) = trace s @ [a]"
  by (simp add: emit_def)

lemma seen_emit [simp]: "seen (emit a s) = seen s"
  by (simp add: emit_def)

lemma headers_emit [simp]: "headers (emit a s) = headers s"
  by (simp add: emit_def)

lemma slack_posts_append [simp]: "slack_posts (xs @ ys) = slack_posts xs @ slack_posts ys"
  by (induction xs rule: slack_posts.induct) simp_all

lemma snd_send [simp]: "snd (send env rq s) = emit (Request rq) s"
  by (simp add: send_def)

lemma fst_send [simp]: "fst (send env rq s) = http env (length (trace s)) rq"
  by (simp add: send_def)

lemma filter_disclosed_eq:
  "filter_disclosed nodes = Inr evs \<Longrightarrow> evs = filter is_disclosed nodes"
  by (induction nodes arbitrary: evs) (auto simp: is_disclosed_def split: sum.splits if_splits)

lemma filter_disclosed_total:
  "\<forall>n\<in>set nodes. \<exists>t. getitem n ''__typename'' = Inr t \<Longrightarrow>
   filter_disclosed nodes = Inr (filter is_disclosed nodes)"
  by (induction nodes) (auto simp: is_disclosed_def split: sum.splits)

lemma snd_fetch_hacktivity:
  "snd (fetch_hacktivity env since s) =
     emit (Request (POST graphql_url (headers s) (query_graphql env) since)) s"
  by (simp add: fetch_hacktivity_def send_def split: sum.splits)

lemma fetch_hacktivity_disclosed:
  "fetch_hacktivity env since s = (Inr evs, s') \<Longrightarrow> \<forall>e\<in>set evs. is_disclosed e"
  by (auto simp: fetch_hacktivity_def send_def and_then_def split: sum.splits dest!: filter_disclosed_eq)

lemma snd_refresh_csrf_trace:
  "trace (snd (refresh_csrf env s)) = trace s @ [Request (GET hacktivity_url (headers s))]"
  by (simp add: refresh_csrf_def send_def split: sum.splits)

lemma snd_refresh_csrf_seen: "seen (snd (refresh_csrf env s)) = seen s"
  by (simp add: refresh_csrf_def send_def split: sum.splits)

lemma requests_of_append [simp]: "requests_of (xs @ ys) = requests_of xs @ requests_of ys"
  by (induction xs rule: requests_of.induct) simp_all

lemma fetch_events_plain:
  "\<not> expired_failure (fst (fetch_hacktivity env since s)) \<Longrightarrow>
   snd (fetch_events env since s) = emit (Request (fetch_request env s since)) s \<and>
   (\<forall>evs. fst (fetch_hacktivity env since s) = Inr evs \<longrightarrow> fst (fetch_events env since s) = Inr evs) \<and>
   (\<forall>e. fst (fetch_hacktivity env since s) = Inl e \<longrightarrow> (\<exists>e'. fst (fetch_events env since s) = Inl e'))"
  using snd_fetch_hacktivity [of env since s]
  by (cases "fetch_hacktivity env since s")
     (auto simp: fetch_events_def expired_failure_def csrf_expired_def fetch_request_def
           split: sum.splits exn.splits option.splits)

lemma fetch_events_retry:
  "expired_failure (fst (fetch_hacktivity env since s)) \<Longrightarrow>
   fetch_events env since s =
     (case fst (refresh_csrf env (emit LogCsrfInvalid (emit (Request (fetch_request env s since)) s))) of
        Inl e \<Rightarrow> (Inl e, snd (refresh_csrf env (emit LogCsrfInvalid (emit (Request (fetch_request env s since)) s))))
      | Inr u \<Rightarrow> fetch_hacktivity env since
                  (snd (refresh_csrf env (emit LogCsrfInvalid (emit (Request (fetch_request env s since)) s)))))"
  using snd_fetch_hacktivity [of env since s]
  by (cases "fetch_hacktivity env since s")
     (auto simp: fetch_events_def expired_failure_def csrf_expired_def fetch_request_def
           split: sum.splits exn.splits option.splits prod.splits)

lemma headers_fetch_hacktivity [simp]: "headers (snd (fetch_hacktivity env since s)) = headers s"
  by (simp add: snd_fetch_hacktivity)

lemma for_events_requests [simp]:
  "requests_of (trace (snd (for_events env events s))) = requests_of (trace s)"
proof (induction events arbitrary: s)
  case Nil
  show ?case by simp
next
  case (Cons event events)
  show ?case
    by (cases "post_slack env event s" )
       (auto simp: Cons.IH post_slack_def split: sum.splits prod.splits option.splits)
qed

lemma for_events_headers [simp]:
  "headers (snd (for_events env events s)) = headers s"
proof (induction events arbitrary: s)
  case Nil
  show ?case by simp
next
  case (Cons event events)
  show ?case
    by (auto simp: Cons.IH post_slack_def split: sum.splits prod.splits option.splits)
qed

section \<open>The ledger\<close>

lemma snd_post_slack [simp]: "snd (post_slack env p s) = emit (PostSlack p) s"
  by (simp add: post_slack_def)

lemma for_events_inv: "ledger_inv s \<Longrightarrow> ledger_inv (snd (for_events env events s))"
proof (induction events arbitrary: s)
  case Nil
  then show ?case by simp
next
  case (Cons event events)
  show ?case
  proof (cases "report_key event")
    case (Inl e)
    then show ?thesis using Cons.prems
      by (auto simp: report_key_def and_then_def split: sum.splits)
  next
    case (Inr k)
    then obtain rid where rid: "report_id_of event = Inr rid" "hash_key rid = Inr k"
      by (auto simp: report_key_def and_then_def split: sum.splits)
    show ?thesis
    proof (cases "k \<in> seen s")
      case True
      have "ledger_inv (emit (LogIgnoring rid) s)"
        using Cons.prems by (simp add: ledger_inv_def)
      from Cons.IH [OF this] show ?thesis using rid True by simp
    next
      case False
      let ?s1 = "emit (PostSlack event) (emit (LogPosting rid) (s\<lparr>seen := insert k (seen s)\<rparr>))"
      have inv1: "ledger_inv ?s1"
        using Cons.prems False Inr by (auto simp: ledger_inv_def emit_def)
      show ?thesis
      proof (cases "fst (post_slack env event (emit (LogPosting rid) (s\<lparr>seen := insert k (seen s)\<rparr>)))")
        case (Inl e)
        then show ?thesis using rid False inv1
          by (simp add: split_beta split: prod.splits sum.splits)
      next
        case (Inr u)
        then show ?thesis using rid False Cons.IH [OF inv1]
          by (simp add: split_beta split: prod.splits sum.splits)
      qed
    qed
  qed
qed

lemma ledger_inv_cong:
  "seen s' = seen s \<Longrightarrow> slack_posts (trace s') = slack_posts (trace s) \<Longrightarrow>
   ledger_inv s' = ledger_inv s"
  by (simp add: ledger_inv_def)

lemma fetch_hacktivity_seen [simp]: "seen (snd (fetch_hacktivity env since s)) = seen s"
  by (simp add: snd_fetch_hacktivity)

lemma fetch_hacktivity_posts [simp]:
  "slack_posts (trace (snd (fetch_hacktivity env since s))) = slack_posts (trace s)"
  by (simp add: snd_fetch_hacktivity)

lemma refresh_csrf_posts [simp]:
  "slack_posts (trace (snd (refresh_csrf env s))) = slack_posts (trace s)"
  by (simp add: snd_refresh_csrf_trace)

lemma fetch_events_cases:
  "snd (fetch_events env since s) = snd (fetch_hacktivity env since s) \<or>
   snd (fetch_events env since s) =
     snd (refresh_csrf env (emit LogCsrfInvalid (snd (fetch_hacktivity env since s)))) \<or>
   snd (fetch_events env since s) =
     snd (fetch_hacktivity env since
            (snd (refresh_csrf env (emit LogCsrfInvalid (snd (fetch_hacktivity env since s))))))"
  by (cases "fetch_hacktivity env since s")
     (auto simp: fetch_events_def split: sum.splits exn.splits option.splits prod.splits)

lemma fetch_events_seen [simp]: "seen (snd (fetch_events env since s)) = seen s"
  using fetch_events_cases [of env since s]
  by (auto simp: snd_refresh_csrf_seen)

lemma fetch_events_posts [simp]:
  "slack_posts (trace (snd (fetch_events env since s))) = slack_posts (trace s)"
  using fetch_events_cases [of env since s] by auto

lemma cycle_alt:
  "cycle env s =
     (let now = utcnow env (length (trace s));
          fe = fetch_events env (now - timedelta_minutes 15) (emit (UtcNow now) s)
      in case fst fe of Inl e \<Rightarrow> (Inl e, snd fe) | Inr events \<Rightarrow> for_events env events (snd fe))"
  by (simp add: cycle_def Let_def split: prod.splits sum.splits)

lemma cycle_inv: "ledger_inv s \<Longrightarrow> ledger_inv (snd (cycle env s))"
proof -
  assume inv: "ledger_inv s"
  let ?now = "utcnow env (length (trace s))"
  let ?fe = "fetch_events env (?now - timedelta_minutes 15) (emit (UtcNow ?now) s)"
  have inv1: "ledger_inv (snd ?fe)"
    using inv by (simp add: ledger_inv_def)
  show ?thesis
    using inv1 by (cases "fst ?fe") (simp_all add: cycle_alt Let_def for_events_inv)
qed

lemma main_loop_Suc:
  "main_loop env (Suc n) s =
     (if fst (cycle env s) = Inl KeyboardInterrupt then (Stopped, snd (cycle env s))
      else case fst (sleep env 60 (handle (cycle env s))) of
             Inl e \<Rightarrow> (Raised e, snd (sleep env 60 (handle (cycle env s))))
           | Inr u \<Rightarrow> main_loop env n (snd (sleep env 60 (handle (cycle env s)))))"
  by (simp split: prod.splits sum.splits)

lemma main_loop_inv: "ledger_inv s \<Longrightarrow> ledger_inv (snd (main_loop env n s))"
proof (induction n arbitrary: s)
  case 0
  then show ?case by simp
next
  case (Suc n)
  have c: "ledger_inv (snd (cycle env s))" using Suc.prems by (rule cycle_inv)
  have h: "ledger_inv (handle (cycle env s))"
    using c by (simp add: handle_def ledger_inv_def split: sum.splits)
  have sl: "ledger_inv (snd (sleep env 60 (handle (cycle env s))))"
    using h by (simp add: sleep_def ledger_inv_def)
  show ?case
    using c sl Suc.IH [OF sl]
    by (cases "fst (sleep env 60 (handle (cycle env s)))") (simp_all only: main_loop_Suc sum.case snd_conv if_split, simp_all)
qed

lemma worker_init_inv: "ledger_inv (worker_init env)"
  by (simp add: ledger_inv_def worker_init_def)

lemma seen_for_events_mono: "k \<in> seen s \<Longrightarrow> k \<in> seen (snd (for_events env events s))"
proof (induction events arbitrary: s)
  case Nil
  then show ?case by simp
next
  case (Cons event events)
  then show ?case
    by (auto simp: post_slack_def split: sum.splits option.splits)
qed

lemma for_events_raises:
  "report_id_of event = Inr rid \<Longrightarrow> hash_key rid = Inr k \<Longrightarrow> k \<notin> seen s \<Longrightarrow>
   slack env (Suc (length (trace s))) event = Some e \<Longrightarrow>
   for_events env (event # events) s =
     (Inl e, s\<lparr>seen := insert k (seen s), trace := trace s @ [LogPosting rid, PostSlack event]\<rparr>)"
  by (simp add: post_slack_def emit_def)

lemma for_events_skips:
  "report_id_of event = Inr rid \<Longrightarrow> hash_key rid = Inr k \<Longrightarrow> k \<in> seen s \<Longrightarrow>
   for_events env (event # events) s = for_events env events (emit (LogIgnoring rid) s)"
  by simp

lemma for_events_marks:
  "report_id_of event = Inr rid \<Longrightarrow> hash_key rid = Inr k \<Longrightarrow>
   k \<in> seen (snd (for_events env (event # events) s))"
  by (auto simp: post_slack_def seen_for_events_mono split: option.splits)

lemma for_events_append:
  "for_events env (xs @ ys) s =
     (case fst (for_events env xs s) of
        Inl e \<Rightarrow> for_events env xs s
      | Inr u \<Rightarrow> for_events env ys (snd (for_events env xs s)))"
proof (induction xs arbitrary: s)
  case Nil
  show ?case by simp
next
  case (Cons x xs)
  show ?case
    by (simp add: Cons.IH split: sum.splits prod.splits)
qed

section \<open>The shape of a cycle\<close>

lemma snd_first_fetch:
  "snd (first_fetch env s) =
     emit (Request (fetch_request env s (cycle_now env s - timedelta_minutes 15)))
       (emit (UtcNow (cycle_now env s)) s)"
  by (simp add: first_fetch_def snd_fetch_hacktivity fetch_request_def)

lemma cycle_via:
  "cycle env s =
     (case fst (fetched env s) of
        Inl e \<Rightarrow> (Inl e, snd (fetched env s))
      | Inr events \<Rightarrow> for_events env events (snd (fetched env s)))"
  by (simp add: cycle_alt Let_def fetched_def cycle_now_def cong: sum.case_cong)

lemma fetched_plain:
  assumes "\<not> expired_failure (fst (first_fetch env s))"
  shows "snd (fetched env s) = snd (first_fetch env s) \<and>
         (fst (first_fetch env s) = Inr evs \<longrightarrow> fst (fetched env s) = Inr evs) \<and>
         (fst (first_fetch env s) = Inl e \<longrightarrow> (\<exists>e'. fst (fetched env s) = Inl e'))"
  using assms
    fetch_events_plain [of env "cycle_now env s - timedelta_minutes 15" "emit (UtcNow (cycle_now env s)) s"]
  by (simp add: fetched_def first_fetch_def snd_fetch_hacktivity fetch_request_def)

lemma fetched_refresh_fails:
  assumes "expired_failure (fst (first_fetch env s))" and "fst (refresh_attempt env s) = Inl e"
  shows "fetched env s = (Inl e, snd (refresh_attempt env s))"
  using assms
    fetch_events_retry [of env "cycle_now env s - timedelta_minutes 15" "emit (UtcNow (cycle_now env s)) s"]
  by (simp add: fetched_def first_fetch_def refresh_attempt_def snd_fetch_hacktivity fetch_request_def)

lemma fetched_refetch:
  assumes "expired_failure (fst (first_fetch env s))" and "fst (refresh_attempt env s) = Inr u"
  shows "fetched env s = second_fetch env s"
  using assms
    fetch_events_retry [of env "cycle_now env s - timedelta_minutes 15" "emit (UtcNow (cycle_now env s)) s"]
  by (simp add: fetched_def first_fetch_def refresh_attempt_def second_fetch_def
        snd_fetch_hacktivity fetch_request_def)

lemma cycle_plain_ok:
  "fst (first_fetch env s) = Inr events \<Longrightarrow>
   cycle env s = for_events env events (snd (first_fetch env s))"
proof -
  assume ok: "fst (first_fetch env s) = Inr events"
  then have ne: "\<not> expired_failure (fst (first_fetch env s))"
    by (simp add: expired_failure_def)
  show ?thesis
    using fetched_plain [OF ne, of events] ok by (simp add: cycle_via)
qed

lemma cycle_plain_fails:
  "\<not> expired_failure (fst (first_fetch env s)) \<Longrightarrow> fst (first_fetch env s) = Inl e \<Longrightarrow>
   \<exists>e'. cycle env s = (Inl e', snd (first_fetch env s))"
proof -
  assume ne: "\<not> expired_failure (fst (first_fetch env s))" and f: "fst (first_fetch env s) = Inl e"
  from fetched_plain [OF ne, of _ e] f obtain e' where "fst (fetched env s) = Inl e'"
    and "snd (fetched env s) = snd (first_fetch env s)" by blast
  then show ?thesis
    by (simp add: cycle_via)
qed

lemma cycle_refresh_fails:
  "expired_failure (fst (first_fetch env s)) \<Longrightarrow> fst (refresh_attempt env s) = Inl e \<Longrightarrow>
   cycle env s = (Inl e, snd (refresh_attempt env s))"
  by (simp add: cycle_via fetched_refresh_fails)

lemma cycle_refetch:
  "expired_failure (fst (first_fetch env s)) \<Longrightarrow> fst (refresh_attempt env s) = Inr u \<Longrightarrow>
   cycle env s =
     (case fst (second_fetch env s) of
        Inl e \<Rightarrow> (Inl e, snd (second_fetch env s))
      | Inr events \<Rightarrow> for_events env events (snd (second_fetch env s)))"
  by (simp add: cycle_via fetched_refetch cong: sum.case_cong)

lemma requests_first_fetch:
  "requests_of (trace (snd (first_fetch env s))) =
     requests_of (trace s) @ [fetch_request env s (cycle_now env s - timedelta_minutes 15)]"
  by (simp add: snd_first_fetch)

lemma requests_refresh_attempt:
  "requests_of (trace (snd (refresh_attempt env s))) =
     requests_of (trace s) @ [fetch_request env s (cycle_now env s - timedelta_minutes 15),
                              GET hacktivity_url (headers s)]"
  by (simp add: refresh_attempt_def snd_refresh_csrf_trace snd_first_fetch)

lemma requests_second_fetch:
  "requests_of (trace (snd (second_fetch env s))) =
     requests_of (trace s) @ [fetch_request env s (cycle_now env s - timedelta_minutes 15),
                              GET hacktivity_url (headers s),
                              fetch_request env (snd (refresh_attempt env s)) (cycle_now env s - timedelta_minutes 15)]"
  by (simp add: second_fetch_def snd_fetch_hacktivity requests_refresh_attempt fetch_request_def)

lemma issued_plain:
  "\<not> expired_failure (fst (first_fetch env s)) \<Longrightarrow>
   issued env s = [fetch_request env s (cycle_now env s - timedelta_minutes 15)]"
proof (cases "fst (first_fetch env s)")
  case (Inl e)
  assume "\<not> expired_failure (fst (first_fetch env s))"
  from cycle_plain_fails [OF this Inl] show ?thesis
    by (auto simp: issued_def requests_first_fetch)
next
  case (Inr events)
  then show ?thesis
    by (simp add: issued_def cycle_plain_ok requests_first_fetch)
qed

lemma issued_refresh_fails:
  "expired_failure (fst (first_fetch env s)) \<Longrightarrow> fst (refresh_attempt env s) = Inl e \<Longrightarrow>
   issued env s = [fetch_request env s (cycle_now env s - timedelta_minutes 15),
                   GET hacktivity_url (headers s)]"
  by (simp add: issued_def cycle_refresh_fails requests_refresh_attempt)

lemma issued_refetch:
  "expired_failure (fst (first_fetch env s)) \<Longrightarrow> fst (refresh_attempt env s) = Inr u \<Longrightarrow>
   issued env s = [fetch_request env s (cycle_now env s - timedelta_minutes 15),
                   GET hacktivity_url (headers s),
                   fetch_request env (snd (refresh_attempt env s)) (cycle_now env s - timedelta_minutes 15)]"
  by (cases "fst (second_fetch env s)")
     (simp_all add: issued_def cycle_refetch requests_second_fetch)

lemma issued_shape:
  "issued env s =
     (if expired_failure (fst (first_fetch env s))
      then [fetch_request env s (cycle_now env s - timedelta_minutes 15),
            GET hacktivity_url (headers s)] @
           (case fst (refresh_attempt env s) of
              Inl e \<Rightarrow> []
            | Inr u \<Rightarrow> [fetch_request env (snd (refresh_attempt env s))
                          (cycle_now env s - timedelta_minutes 15)])
      else [fetch_request env s (cycle_now env s - timedelta_minutes 15)])"
  by (cases "fst (refresh_attempt env s)")
     (simp_all add: issued_plain issued_refresh_fails issued_refetch)

section \<open>Requests of the worker and of the poll lambda\<close>

lemma cycle_requests:
  "requests_of (trace (snd (cycle env s))) = requests_of (trace s) @ issued env s"
proof (cases "expired_failure (fst (first_fetch env s))")
  case False
  show ?thesis
  proof (cases "fst (first_fetch env s)")
    case (Inl e)
    from cycle_plain_fails [OF False Inl] show ?thesis
      by (auto simp: issued_plain [OF False] requests_first_fetch)
  next
    case (Inr events)
    then show ?thesis
      by (simp add: issued_plain [OF False] cycle_plain_ok requests_first_fetch)
  qed
next
  case True
  show ?thesis
  proof (cases "fst (refresh_attempt env s)")
    case (Inl e)
    then show ?thesis
      by (simp add: issued_refresh_fails [OF True Inl] cycle_refresh_fails [OF True Inl]
            requests_refresh_attempt)
  next
    case (Inr u)
    then show ?thesis
      by (cases "fst (second_fetch env s)")
         (simp_all add: issued_refetch [OF True Inr] cycle_refetch [OF True Inr]
            requests_second_fetch)
  qed
qed

lemma requests_handle [simp]: "requests_of (trace (handle rs)) = requests_of (trace (snd rs))"
  by (simp add: handle_def split: sum.splits)

lemma snd_sleep [simp]: "snd (sleep env secs s) = emit (Sleep secs) s"
  by (simp add: sleep_def)

lemma main_loop_requests:
  "\<exists>rest. requests_of (trace (snd (main_loop env n s))) = requests_of (trace s) @ rest"
proof (induction n arbitrary: s)
  case 0
  show ?case by simp
next
  case (Suc n)
  obtain rest where
    "requests_of (trace (snd (main_loop env n (snd (sleep env 60 (handle (cycle env s))))))) =
       requests_of (trace (snd (sleep env 60 (handle (cycle env s))))) @ rest"
    using Suc.IH by blast
  then show ?case
    by (cases "fst (sleep env 60 (handle (cycle env s)))")
       (simp_all only: main_loop_Suc, simp_all add: cycle_requests)
qed

lemma main_first_requests:
  "\<exists>rest. requests_of (trace (snd (main env (Suc n)))) = issued env (worker_init env) @ rest"
proof -
  obtain rest where
    "requests_of (trace (snd (main_loop env n (snd (sleep env 60 (handle (cycle env (worker_init env)))))))) =
       requests_of (trace (snd (sleep env 60 (handle (cycle env (worker_init env)))))) @ rest"
    using main_loop_requests by blast
  then show ?thesis
    by (cases "fst (sleep env 60 (handle (cycle env (worker_init env))))")
       (simp_all only: main_def main_loop_Suc, simp_all add: cycle_requests worker_init_def)
qed

lemma take1_issued:
  "take 1 (issued env s) = [fetch_request env s (cycle_now env s - timedelta_minutes 15)]"
  by (simp add: issued_shape)

lemma refreshes_issued:
  "filter is_refresh (issued env s) =
     (if expired_failure (fst (first_fetch env s)) then [GET hacktivity_url (headers s)] else [])"
  by (simp add: issued_shape fetch_request_def split: sum.splits)

lemma poll_refresh_csrf_eq: "poll_refresh_csrf env s = refresh_csrf env s"
  by (simp add: poll_refresh_csrf_def refresh_csrf_def)

lemma snd_poll_fetch_hacktivity_requests:
  "requests_of (trace (snd (poll_fetch_hacktivity env since s))) =
     requests_of (trace s) @ [fetch_request env s since]"
  by (simp add: poll_fetch_hacktivity_def send_def fetch_request_def split: sum.splits)

lemma send_all_requests [simp]:
  "requests_of (trace (snd (send_all env events s))) = requests_of (trace s)"
proof (induction events arbitrary: s)
  case Nil
  show ?case by simp
next
  case (Cons event events)
  show ?case
    by (auto simp: Cons.IH send_message_def Let_def split: sum.splits prod.splits option.splits)
qed

lemma trace_poll_refreshed:
  "trace (snd (poll_refreshed env)) = [Request (GET hacktivity_url (default_headers env))]"
  by (simp add: poll_refreshed_def poll_refresh_csrf_eq snd_refresh_csrf_trace poll_init_def)

lemma lambda_handler_alt:
  "lambda_handler env =
     (case fst (poll_refreshed env) of
        Inl e \<Rightarrow> (Inl e, snd (poll_refreshed env))
      | Inr u \<Rightarrow>
          (case fst (poll_fetched env) of
             Inl e \<Rightarrow> (Inl e, snd (poll_fetched env))
           | Inr nodes \<Rightarrow>
               (case iterate nodes of
                  Inl e \<Rightarrow> (Inl e, snd (poll_fetched env))
                | Inr events \<Rightarrow> send_all env events (snd (poll_fetched env)))))"
proof -
  have len: "length (trace (snd (poll_refresh_csrf env (poll_init env)))) = 1"
    using trace_poll_refreshed [of env] by (simp add: poll_refreshed_def)
  show ?thesis
    unfolding lambda_handler_def poll_fetched_def poll_refreshed_def
    using len
    by (cases "poll_refresh_csrf env (poll_init env)")
       (auto simp: Let_def split: sum.splits prod.splits)
qed

lemma lambda_requests:
  "requests_of (trace (snd (lambda_handler env))) =
     GET hacktivity_url (default_headers env) #
     (case fst (poll_refreshed env) of
        Inl e \<Rightarrow> []
      | Inr u \<Rightarrow> [fetch_request env (snd (poll_refreshed env)) (utcnow env 1 - timedelta_minutes 4)])"
proof (cases "fst (poll_refreshed env)")
  case (Inl e)
  then show ?thesis
    by (simp add: lambda_handler_alt trace_poll_refreshed)
next
  case (Inr u)
  have "requests_of (trace (snd (poll_fetched env))) =
          [GET hacktivity_url (default_headers env),
           fetch_request env (snd (poll_refreshed env)) (utcnow env 1 - timedelta_minutes 4)]"
    by (simp add: poll_fetched_def snd_poll_fetch_hacktivity_requests trace_poll_refreshed
          fetch_request_def)
  then show ?thesis
    using Inr by (simp add: lambda_handler_alt split: sum.splits)
qed

lemma windows_issued:
  "set (windows (issued env s)) = {utcnow env (length (trace s)) - timedelta_minutes 15}"
  by (simp add: issued_shape fetch_request_def cycle_now_def split: sum.splits)

lemma windows_lambda:
  "windows (requests_of (trace (snd (lambda_handler env)))) =
     (case fst (poll_refresh_csrf env (poll_init env)) of
        Inl e \<Rightarrow> []
      | Inr u \<Rightarrow> [utcnow env 1 - timedelta_minutes 4])"
  by (simp add: lambda_requests fetch_request_def poll_refreshed_def split: sum.splits)

section \<open>Exceptions and the main loop\<close>

lemma getitem_no_interrupt: "getitem j k \<noteq> Inl KeyboardInterrupt"
  by (cases j) (simp_all split: option.splits)

lemma hash_key_no_interrupt: "hash_key j \<noteq> Inl KeyboardInterrupt"
  by (cases j) simp_all

lemma iterate_no_interrupt: "iterate j \<noteq> Inl KeyboardInterrupt"
  by (cases j) simp_all

lemma and_then_no_interrupt:
  "r \<noteq> Inl KeyboardInterrupt \<Longrightarrow> (\<And>x. f x \<noteq> Inl KeyboardInterrupt) \<Longrightarrow>
   and_then r f \<noteq> Inl KeyboardInterrupt"
  by (cases r) (simp_all add: and_then_def)

lemma filter_disclosed_no_interrupt: "filter_disclosed nodes \<noteq> Inl KeyboardInterrupt"
  by (induction nodes) (auto simp: getitem_no_interrupt split: sum.splits)

lemma response_nodes_no_interrupt: "response_nodes r \<noteq> Inl KeyboardInterrupt"
proof (cases "resp_json r")
  case None
  then show ?thesis by (simp add: response_nodes_def)
next
  case (Some j)
  have "and_then (getitem j ''data'') (\<lambda>d. and_then (getitem d ''hacktivity_items'')
          (\<lambda>h. getitem h ''nodes'')) \<noteq> Inl KeyboardInterrupt"
    by (intro and_then_no_interrupt getitem_no_interrupt)
  with Some show ?thesis by (simp add: response_nodes_def)
qed

lemma raise_for_status_no_interrupt: "raise_for_status r \<noteq> Inl KeyboardInterrupt"
  by (simp add: raise_for_status_def)

lemma csrf_content_no_interrupt: "csrf_content doc \<noteq> Inl KeyboardInterrupt"
  by (simp add: csrf_content_def split: option.splits)

lemma report_id_of_no_interrupt: "report_id_of event \<noteq> Inl KeyboardInterrupt"
  unfolding report_id_of_def by (intro and_then_no_interrupt getitem_no_interrupt)

lemma refresh_csrf_no_interrupt:
  assumes "\<forall>i rq. http env i rq \<noteq> Inl KeyboardInterrupt"
  shows "fst (refresh_csrf env s) \<noteq> Inl KeyboardInterrupt"
proof -
  have "and_then (raise_for_status r) (\<lambda>_. csrf_content (markup r)) \<noteq> Inl KeyboardInterrupt" for r
    by (intro and_then_no_interrupt raise_for_status_no_interrupt csrf_content_no_interrupt)
  then show ?thesis
    using assms by (auto simp: refresh_csrf_def send_def split: sum.splits)
qed

lemma fetch_hacktivity_no_interrupt:
  assumes "\<forall>i rq. http env i rq \<noteq> Inl KeyboardInterrupt"
  shows "fst (fetch_hacktivity env since s) \<noteq> Inl KeyboardInterrupt"
proof -
  have "and_then (raise_for_status r) (\<lambda>_. and_then (response_nodes r) (\<lambda>nodes.
          and_then (iterate nodes) filter_disclosed)) \<noteq> Inl KeyboardInterrupt" for r
    by (intro and_then_no_interrupt raise_for_status_no_interrupt response_nodes_no_interrupt
          iterate_no_interrupt filter_disclosed_no_interrupt)
  then show ?thesis
    using assms by (auto simp: fetch_hacktivity_def send_def split: sum.splits)
qed

lemma fetch_events_no_interrupt:
  assumes "\<forall>i rq. http env i rq \<noteq> Inl KeyboardInterrupt"
  shows "fst (fetch_events env since s) \<noteq> Inl KeyboardInterrupt"
proof (cases "expired_failure (fst (fetch_hacktivity env since s))")
  case False
  show ?thesis
  proof (cases "fetch_hacktivity env since s")
    case (Pair r s1)
    with fetch_hacktivity_no_interrupt [OF assms, of since s] False show ?thesis
      by (auto simp: fetch_events_def expired_failure_def csrf_expired_def
            split: sum.splits exn.splits option.splits)
  qed
next
  case True
  let ?rc = "refresh_csrf env (emit LogCsrfInvalid (emit (Request (fetch_request env s since)) s))"
  show ?thesis
  proof (cases "fst ?rc")
    case (Inl e)
    with refresh_csrf_no_interrupt [OF assms] have "e \<noteq> KeyboardInterrupt" by metis
    with Inl show ?thesis
      by (simp add: fetch_events_retry [OF True])
  next
    case (Inr u)
    then show ?thesis
      by (simp add: fetch_events_retry [OF True] fetch_hacktivity_no_interrupt [OF assms])
  qed
qed

lemma for_events_no_interrupt:
  assumes "\<forall>i p. slack env i p \<noteq> Some KeyboardInterrupt"
  shows "fst (for_events env events s) \<noteq> Inl KeyboardInterrupt"
proof (induction events arbitrary: s)
  case Nil
  show ?case by simp
next
  case (Cons event events)
  show ?case
    using assms report_id_of_no_interrupt [of event] hash_key_no_interrupt Cons.IH
    by (auto simp: post_slack_def split: sum.splits option.splits)
qed

lemma cycle_no_interrupt:
  assumes "\<forall>i rq. http env i rq \<noteq> Inl KeyboardInterrupt"
    and "\<forall>i p. slack env i p \<noteq> Some KeyboardInterrupt"
  shows "fst (cycle env s) \<noteq> Inl KeyboardInterrupt"
proof (cases "fst (fetched env s)")
  case (Inl e)
  with fetch_events_no_interrupt [OF assms(1)] have "e \<noteq> KeyboardInterrupt"
    unfolding fetched_def by metis
  with Inl show ?thesis by (simp add: cycle_via)
next
  case (Inr events)
  then show ?thesis
    by (simp add: cycle_via for_events_no_interrupt [OF assms(2)])
qed

lemma sleeps_append [simp]: "sleeps (xs @ ys) = sleeps xs + sleeps ys"
  by (induction xs rule: sleeps.induct) simp_all

lemma for_events_sleeps [simp]:
  "sleeps (trace (snd (for_events env events s))) = sleeps (trace s)"
proof (induction events arbitrary: s)
  case Nil
  show ?case by simp
next
  case (Cons event events)
  show ?case
    by (auto simp: Cons.IH post_slack_def split: sum.splits option.splits)
qed

lemma fetch_events_sleeps [simp]:
  "sleeps (trace (snd (fetch_events env since s))) = sleeps (trace s)"
  using fetch_events_cases [of env since s]
  by (auto simp: snd_fetch_hacktivity snd_refresh_csrf_trace)

lemma cycle_sleeps: "sleeps (trace (snd (cycle env s))) = sleeps (trace s)"
  by (cases "fst (fetched env s)") (simp_all add: cycle_via fetched_def)

lemma main_loop_continues:
  "fst (cycle env s) \<noteq> Inl KeyboardInterrupt \<Longrightarrow>
   sleeping env (length (trace (handle (cycle env s)))) = None \<Longrightarrow>
   main_loop env (Suc n) s = main_loop env n (emit (Sleep 60) (handle (cycle env s)))"
  by (simp only: main_loop_Suc) (simp add: sleep_def)

lemma main_loop_running:
  assumes "\<forall>i rq. http env i rq \<noteq> Inl KeyboardInterrupt"
    and "\<forall>i p. slack env i p \<noteq> Some KeyboardInterrupt"
    and "\<forall>i. sleeping env i = None"
  shows "fst (main_loop env n s) = Running \<and>
         sleeps (trace (snd (main_loop env n s))) = sleeps (trace s) + n"
proof (induction n arbitrary: s)
  case 0
  show ?case by simp
next
  case (Suc n)
  have step: "main_loop env (Suc n) s = main_loop env n (emit (Sleep 60) (handle (cycle env s)))"
    using cycle_no_interrupt [OF assms(1,2)] assms(3) by (intro main_loop_continues) simp_all
  have "sleeps (trace (handle (cycle env s))) = sleeps (trace s)"
    by (simp add: handle_def cycle_sleeps split: sum.splits)
  then show ?case
    using Suc.IH [of "emit (Sleep 60) (handle (cycle env s))"] by (simp only: step) simp
qed


section \<open>Messages of the poll lambda\<close>

lemma sent_messages_append [simp]:
  "sent_messages (xs @ ys) = sent_messages xs @ sent_messages ys"
  by (induction xs rule: sent_messages.induct) simp_all











section \<open>Only disclosures are forwarded\<close>

lemma fetch_hacktivity_filters:
  "http env (length (trace s)) (POST graphql_url (headers s) (query_graphql env) since) = Inr r \<Longrightarrow>
   raise_for_status r = Inr () \<Longrightarrow> response_nodes r = Inr (JArr nodes) \<Longrightarrow>
   \<forall>n\<in>set nodes. \<exists>t. getitem n ''__typename'' = Inr t \<Longrightarrow>
   fst (fetch_hacktivity env since s) = Inr (filter is_disclosed nodes)"
  by (simp add: fetch_hacktivity_def send_def and_then_def filter_disclosed_total)

lemma fst_fetch_hacktivity_disclosed:
  "fst (fetch_hacktivity env since s) = Inr evs \<Longrightarrow> \<forall>ev\<in>set evs. is_disclosed ev"
  using fetch_hacktivity_disclosed [of env since s evs "snd (fetch_hacktivity env since s)"]
  by (metis prod.collapse)

lemma fetch_events_disclosed:
  assumes "fst (fetch_events env since s) = Inr evs"
  shows "\<forall>ev\<in>set evs. is_disclosed ev"
proof (cases "expired_failure (fst (fetch_hacktivity env since s))")
  case False
  show ?thesis
  proof (cases "fst (fetch_hacktivity env since s)")
    case (Inl e)
    with fetch_events_plain [OF False] assms show ?thesis by auto
  next
    case (Inr evs')
    with fetch_events_plain [OF False] assms have "evs' = evs" by auto
    with Inr show ?thesis by (auto dest: fst_fetch_hacktivity_disclosed)
  qed
next
  case True
  let ?rc = "refresh_csrf env (emit LogCsrfInvalid (emit (Request (fetch_request env s since)) s))"
  show ?thesis
  proof (cases "fst ?rc")
    case (Inl e)
    with assms show ?thesis by (simp add: fetch_events_retry [OF True])
  next
    case (Inr u)
    with assms have "fst (fetch_hacktivity env since (snd ?rc)) = Inr evs"
      by (simp add: fetch_events_retry [OF True])
    then show ?thesis by (rule fst_fetch_hacktivity_disclosed)
  qed
qed

lemma for_events_posts_subset:
  "set (slack_posts (trace (snd (for_events env events s)))) \<subseteq>
     set (slack_posts (trace s)) \<union> set events"
proof (induction events arbitrary: s)
  case Nil
  show ?case by simp
next
  case (Cons event events)
  show ?case
  proof (cases "report_key event")
    case (Inl e)
    then show ?thesis
      by (auto simp: report_key_def and_then_def split: sum.splits)
  next
    case (Inr k)
    then obtain rid where rid: "report_id_of event = Inr rid" "hash_key rid = Inr k"
      by (auto simp: report_key_def and_then_def split: sum.splits)
    show ?thesis
    proof (cases "k \<in> seen s")
      case True
      from Cons.IH [of "emit (LogIgnoring rid) s"] show ?thesis
        using rid True by auto
    next
      case False
      let ?s1 = "emit (PostSlack event) (emit (LogPosting rid) (s\<lparr>seen := insert k (seen s)\<rparr>))"
      have p1: "slack_posts (trace ?s1) = slack_posts (trace s) @ [event]"
        by (simp add: emit_def)
      from Cons.IH [of ?s1] show ?thesis
        using rid False p1
        by (auto simp: post_slack_def emit_def split: option.splits)
    qed
  qed
qed

lemma cycle_disclosed:
  assumes "\<forall>p\<in>set (slack_posts (trace s)). is_disclosed p"
  shows "\<forall>p\<in>set (slack_posts (trace (snd (cycle env s)))). is_disclosed p"
proof (cases "fst (fetched env s)")
  case (Inl e)
  then show ?thesis using assms by (simp add: cycle_via fetched_def)
next
  case (Inr events)
  then have d: "\<forall>ev\<in>set events. is_disclosed ev"
    unfolding fetched_def by (rule fetch_events_disclosed)
  have "\<forall>p\<in>set (slack_posts (trace (snd (fetched env s)))). is_disclosed p"
    using assms by (simp add: fetched_def)
  with d for_events_posts_subset [of env events "snd (fetched env s)"] Inr show ?thesis
    by (auto simp: cycle_via)
qed

lemma main_loop_disclosed:
  "\<forall>p\<in>set (slack_posts (trace s)). is_disclosed p \<Longrightarrow>
   \<forall>p\<in>set (slack_posts (trace (snd (main_loop env n s)))). is_disclosed p"
proof (induction n arbitrary: s)
  case 0
  then show ?case by simp
next
  case (Suc n)
  have c: "\<forall>p\<in>set (slack_posts (trace (snd (cycle env s)))). is_disclosed p"
    using Suc.prems by (rule cycle_disclosed)
  have sl: "\<forall>p\<in>set (slack_posts (trace (snd (sleep env 60 (handle (cycle env s)))))). is_disclosed p"
    using c by (simp add: handle_def split: sum.splits)
  show ?case
    using c sl Suc.IH [OF sl]
    by (cases "fst (sleep env 60 (handle (cycle env s)))")
       (simp_all only: main_loop_Suc sum.case snd_conv if_split, simp_all)
qed

lemma main_disclosed: "\<forall>p\<in>set (slack_posts (trace (snd (main env n)))). is_disclosed p"
  unfolding main_def by (rule main_loop_disclosed) (simp add: worker_init_def)

lemma main_seen_posted:
  "k \<in> seen (snd (main env n)) \<Longrightarrow>
   \<exists>p\<in>set (slack_posts (trace (snd (main env n)))). report_key p = Inr k"
proof -
  assume k: "k \<in> seen (snd (main env n))"
  have "set (map report_key (slack_posts (trace (snd (main env n))))) = Inr ` seen (snd (main env n))"
    using main_loop_inv [OF worker_init_inv, of env n] by (simp add: main_def ledger_inv_def)
  with k have "Inr k \<in> set (map report_key (slack_posts (trace (snd (main env n)))))" by blast
  then show ?thesis by auto
qed

section \<open>The claims\<close>

text \<open>
  C1, as the code has it. The identifier of an event is put into \<^verbatim>\<open>seen\<close> before
  \<^verbatim>\<open>post_slack\<close> is called: when the call raises, the loop over the batch ends with
  that exception and the identifier is in the set; whatever the call does, the identifier is
  in the set after the event was processed; and an event whose identifier is in the set is
  skipped with a log line, so a later cycle that fetches it again does not forward it.
\<close>

theorem ledger_updated_before_forward:
  "report_id_of event = Inr rid \<Longrightarrow> hash_key rid = Inr k \<Longrightarrow>
   (k \<notin> seen s \<longrightarrow> slack env (Suc (length (trace s))) event = Some e \<longrightarrow>
      for_events env (event # events) s =
        (Inl e, s\<lparr>seen := insert k (seen s), trace := trace s @ [LogPosting rid, PostSlack event]\<rparr>)) \<and>
   k \<in> seen (snd (for_events env (event # events) s)) \<and>
   (k \<in> seen s \<longrightarrow>
      for_events env (event # events) s = for_events env events (emit (LogIgnoring rid) s))"
  using for_events_raises for_events_skips for_events_marks by blast

theorem ledger_updated_before_forward_witness:
  "for_events (down_env []) [report_node ''Disclosed'' ''1''] (worker_init (down_env [])) =
     (Inl (OtherException ''ConnectionError''),
      (worker_init (down_env []))
        \<lparr>seen := {KStr ''1''},
         trace := [LogPosting (JStr ''1''), PostSlack (report_node ''Disclosed'' ''1'')]\<rparr>) \<and>
   KStr ''1'' \<in> seen (snd (for_events (down_env []) [report_node ''Disclosed'' ''1'']
                             (worker_init (down_env []))))"
proof -
  have a: "report_id_of (report_node ''Disclosed'' ''1'') = Inr (JStr ''1'')"
    by (simp add: report_id_of_def report_node_def and_then_def)
  have b: "hash_key (JStr ''1'') = Inr (KStr ''1'')" by simp
  have c: "KStr ''1'' \<notin> seen (worker_init (down_env []))"
    by (simp add: worker_init_def)
  have d: "slack (down_env []) (Suc (length (trace (worker_init (down_env [])))))
             (report_node ''Disclosed'' ''1'') = Some (OtherException ''ConnectionError'')"
    by (simp add: down_env_def test_env_def slack_down_def)
  have t: "trace (worker_init (down_env [])) = []" "seen (worker_init (down_env [])) = {}"
    by (simp_all add: worker_init_def)
  show ?thesis
    using ledger_updated_before_forward [OF a b, of "worker_init (down_env [])" "down_env []"
        "OtherException ''ConnectionError''" "[]"] c d
    by (simp add: t)
qed

text \<open>
  C1 as the specification words it fails: the webhook is down, the forward of report 1
  raises, and yet its key is in \<^verbatim>\<open>seen\<close> after the cycle; the second cycle fetches the
  same report, logs that it ignores it, and in two cycles \<^verbatim>\<open>post_slack\<close> was called
  once.
\<close>

theorem ledger_after_failed_forward_counterexample:
  "fst (cycle (down_env [report_node ''Disclosed'' ''1''])
          (worker_init (down_env [report_node ''Disclosed'' ''1'']))) =
     Inl (OtherException ''ConnectionError'') \<and>
   KStr ''1'' \<in> seen (snd (cycle (down_env [report_node ''Disclosed'' ''1''])
                             (worker_init (down_env [report_node ''Disclosed'' ''1''])))) \<and>
   LogIgnoring (JStr ''1'') \<in> set (trace (snd (main (down_env [report_node ''Disclosed'' ''1'']) 2))) \<and>
   slack_posts (trace (snd (main (down_env [report_node ''Disclosed'' ''1'']) 2))) =
     [report_node ''Disclosed'' ''1'']"
  by code_simp

text \<open>
  C2. Over any number of cycles and whatever the environment answers, no two calls of
  \<^verbatim>\<open>post_slack\<close> are for events with the same identifier, whether the first call
  returned or raised; and \<^verbatim>\<open>seen\<close> holds exactly the identifiers of these calls.
\<close>

theorem forwarded_at_most_once:
  "distinct (map report_key (slack_posts (trace (snd (main env n))))) \<and>
   set (map report_key (slack_posts (trace (snd (main env n))))) = Inr ` seen (snd (main env n))"
  using main_loop_inv [OF worker_init_inv, of env n]
  by (simp add: main_def ledger_inv_def)

theorem forwarded_at_most_once_witness:
  "slack_posts (trace (snd (main (up_env [report_node ''Disclosed'' ''1'']) 3))) =
     [report_node ''Disclosed'' ''1''] \<and>
   distinct (map report_key (slack_posts (trace (snd (main (up_env [report_node ''Disclosed'' ''1'']) 3)))))"
proof -
  have "slack_posts (trace (snd (main (up_env [report_node ''Disclosed'' ''1'']) 3))) =
     [report_node ''Disclosed'' ''1'']"
    by code_simp
  then show ?thesis
    using forwarded_at_most_once [of "up_env [report_node ''Disclosed'' ''1'']" 3] by simp
qed

text \<open>
  C3, as the code has it. When the events before one were processed and processing that
  one raises (its forward fails, or its identifier cannot be read), the loop over the batch
  ends there: the outcome and the state are those reached at the failing event, whatever
  events follow it in the batch.
\<close>

theorem failure_ends_batch:
  "fst (for_events env before s) = Inr () \<Longrightarrow>
   fst (for_events env [event] (snd (for_events env before s))) = Inl e \<Longrightarrow>
   for_events env (before @ event # after) s =
     for_events env [event] (snd (for_events env before s))"
proof -
  assume a: "fst (for_events env before s) = Inr ()"
    and b: "fst (for_events env [event] (snd (for_events env before s))) = Inl e"
  have "for_events env (before @ [event] @ after) s =
          for_events env ([event] @ after) (snd (for_events env before s))"
    using a by (simp only: for_events_append [of env before] sum.case)
  also have "\<dots> = for_events env [event] (snd (for_events env before s))"
    using b by (simp only: for_events_append [of env "[event]"] sum.case)
  finally show ?thesis by simp
qed

theorem failure_ends_batch_witness:
  "for_events (down_env [])
     ([report_node ''Disclosed'' ''0''] @ report_node ''Disclosed'' ''1'' #
      [report_node ''Disclosed'' ''2''])
     ((worker_init (down_env []))\<lparr>seen := {KStr ''0''}\<rparr>) =
   (Inl (OtherException ''ConnectionError''),
    (worker_init (down_env []))
      \<lparr>seen := {KStr ''1'', KStr ''0''},
       trace := [LogIgnoring (JStr ''0''), LogPosting (JStr ''1''),
                 PostSlack (report_node ''Disclosed'' ''1'')]\<rparr>)"
proof -
  let ?s = "(worker_init (down_env []))\<lparr>seen := {KStr ''0''}\<rparr>"
  have a: "fst (for_events (down_env []) [report_node ''Disclosed'' ''0''] ?s) = Inr ()"
    by (simp add: report_id_of_def report_node_def and_then_def)
  have c: "for_events (down_env []) [report_node ''Disclosed'' ''1'']
             (snd (for_events (down_env []) [report_node ''Disclosed'' ''0''] ?s)) =
     (Inl (OtherException ''ConnectionError''),
      (worker_init (down_env []))
        \<lparr>seen := {KStr ''1'', KStr ''0''},
         trace := [LogIgnoring (JStr ''0''), LogPosting (JStr ''1''),
                   PostSlack (report_node ''Disclosed'' ''1'')]\<rparr>)"
    by (simp add: report_id_of_def report_node_def and_then_def post_slack_def down_env_def
          test_env_def slack_down_def worker_init_def emit_def)
  have b: "fst (for_events (down_env []) [report_node ''Disclosed'' ''1'']
                  (snd (for_events (down_env []) [report_node ''Disclosed'' ''0''] ?s))) =
           Inl (OtherException ''ConnectionError'')"
    by (simp only: c fst_conv)
  show ?thesis
    using failure_ends_batch [OF a b, of "[report_node ''Disclosed'' ''2'']"]
    by (simp only: c)
qed

text \<open>
  C3 as the specification words it fails: with the webhook down and a batch of reports 1
  and 2, the cycle ends with the exception of the first forward; report 2 was neither
  forwarded nor recorded in that cycle.
\<close>

theorem batch_isolation_counterexample:
  "fst (cycle (down_env [report_node ''Disclosed'' ''1'', report_node ''Disclosed'' ''2''])
          (worker_init (down_env [report_node ''Disclosed'' ''1'', report_node ''Disclosed'' ''2'']))) =
     Inl (OtherException ''ConnectionError'') \<and>
   slack_posts (trace (snd (cycle (down_env [report_node ''Disclosed'' ''1'', report_node ''Disclosed'' ''2''])
          (worker_init (down_env [report_node ''Disclosed'' ''1'', report_node ''Disclosed'' ''2'']))))) =
     [report_node ''Disclosed'' ''1''] \<and>
   seen (snd (cycle (down_env [report_node ''Disclosed'' ''1'', report_node ''Disclosed'' ''2''])
          (worker_init (down_env [report_node ''Disclosed'' ''1'', report_node ''Disclosed'' ''2''])))) =
     {KStr ''1''}"
  by code_simp

text \<open>
  C4, as the code has it. The requests that a cycle issues are: the fetch alone, unless the
  fetch failed with an \<open>HTTPError\<close> of status 500 whose text has the marker; in that case
  the fetch, then one refresh, then (only when the refresh returned) one more fetch with the
  same window start. A fetch that fails in any other way ends the cycle with an exception
  and no refresh; a refresh that fails ends the cycle with its exception and no second
  fetch; a second fetch that fails ends the cycle with its exception.
\<close>

theorem retry_once_on_expired_token:
  "issued env s =
     (if expired_failure (fst (first_fetch env s))
      then [fetch_request env s (cycle_now env s - timedelta_minutes 15),
            GET hacktivity_url (headers s)] @
           (case fst (refresh_attempt env s) of
              Inl e \<Rightarrow> []
            | Inr u \<Rightarrow> [fetch_request env (snd (refresh_attempt env s))
                          (cycle_now env s - timedelta_minutes 15)])
      else [fetch_request env s (cycle_now env s - timedelta_minutes 15)]) \<and>
   (\<not> expired_failure (fst (first_fetch env s)) \<longrightarrow> fst (first_fetch env s) = Inl e \<longrightarrow>
      (\<exists>e'. cycle env s = (Inl e', snd (first_fetch env s)))) \<and>
   (expired_failure (fst (first_fetch env s)) \<longrightarrow> fst (refresh_attempt env s) = Inl e \<longrightarrow>
      cycle env s = (Inl e, snd (refresh_attempt env s))) \<and>
   (expired_failure (fst (first_fetch env s)) \<longrightarrow> fst (refresh_attempt env s) = Inr () \<longrightarrow>
      fst (second_fetch env s) = Inl e \<longrightarrow> cycle env s = (Inl e, snd (second_fetch env s)))"
proof (intro conjI impI)
  show "issued env s =
     (if expired_failure (fst (first_fetch env s))
      then [fetch_request env s (cycle_now env s - timedelta_minutes 15),
            GET hacktivity_url (headers s)] @
           (case fst (refresh_attempt env s) of
              Inl e \<Rightarrow> []
            | Inr u \<Rightarrow> [fetch_request env (snd (refresh_attempt env s))
                          (cycle_now env s - timedelta_minutes 15)])
      else [fetch_request env s (cycle_now env s - timedelta_minutes 15)])"
    by (rule issued_shape)
next
  assume "\<not> expired_failure (fst (first_fetch env s))" and "fst (first_fetch env s) = Inl e"
  then show "\<exists>e'. cycle env s = (Inl e', snd (first_fetch env s))"
    by (rule cycle_plain_fails)
next
  assume "expired_failure (fst (first_fetch env s))" and "fst (refresh_attempt env s) = Inl e"
  then show "cycle env s = (Inl e, snd (refresh_attempt env s))"
    by (rule cycle_refresh_fails)
next
  assume "expired_failure (fst (first_fetch env s))" and "fst (refresh_attempt env s) = Inr ()"
    and "fst (second_fetch env s) = Inl e"
  then show "cycle env s = (Inl e, snd (second_fetch env s))"
    by (simp add: cycle_refetch)
qed

theorem retry_once_on_expired_token_witness:
  "issued (token_env 200 [report_node ''Disclosed'' ''1''])
     (worker_init (token_env 200 [report_node ''Disclosed'' ''1''])) =
   [POST graphql_url [(''User-Agent'', user_agent)] ''query'' 100000000,
    GET hacktivity_url [(''User-Agent'', user_agent)],
    POST graphql_url [(''User-Agent'', user_agent), (''x-csrf-token'', ''tok'')] ''query'' 100000000]"
proof -
  let ?env = "token_env 200 [report_node ''Disclosed'' ''1'']"
  have a: "expired_failure (fst (first_fetch ?env (worker_init ?env)))"
    by code_simp
  have b: "fst (refresh_attempt ?env (worker_init ?env)) = Inr ()"
    by code_simp
  have c: "fetch_request ?env (worker_init ?env)
             (cycle_now ?env (worker_init ?env) - timedelta_minutes 15) =
           POST graphql_url [(''User-Agent'', user_agent)] ''query'' 100000000"
    by code_simp
  have d: "fetch_request ?env (snd (refresh_attempt ?env (worker_init ?env)))
             (cycle_now ?env (worker_init ?env) - timedelta_minutes 15) =
           POST graphql_url [(''User-Agent'', user_agent), (''x-csrf-token'', ''tok'')]
             ''query'' 100000000"
    by code_simp
  have e: "headers (worker_init ?env) = [(''User-Agent'', user_agent)]"
    by code_simp
  show ?thesis
    using retry_once_on_expired_token [of ?env "worker_init ?env" TypeError] a b
    by (simp add: c d e)
qed

text \<open>
  C4 as the specification words it fails: the fetch fails with status 500 and the marker,
  the landing page answers 503, and the cycle issues the fetch and one refresh but no
  second fetch.
\<close>

theorem refresh_without_refetch_counterexample:
  "expired_failure (fst (first_fetch (token_env 503 [report_node ''Disclosed'' ''1''])
     (worker_init (token_env 503 [report_node ''Disclosed'' ''1''])))) \<and>
   issued (token_env 503 [report_node ''Disclosed'' ''1''])
     (worker_init (token_env 503 [report_node ''Disclosed'' ''1''])) =
   [POST graphql_url [(''User-Agent'', user_agent)] ''query'' 100000000,
    GET hacktivity_url [(''User-Agent'', user_agent)]]"
  by code_simp

text \<open>
  C5, for the worker. When the response carries a list of nodes that each have a
  \<^verbatim>\<open>__typename\<close>, the worker's \<^verbatim>\<open>fetch_hacktivity\<close> returns the nodes whose
  discriminator is \<^verbatim>\<open>Disclosed\<close>, in their order; whatever it returns, every returned
  node is one; over any number of cycles only such nodes are handed to \<^verbatim>\<open>post_slack\<close>,
  and every identifier in \<^verbatim>\<open>seen\<close> is that of one.
\<close>

theorem worker_fetch_keeps_disclosed:
  "(http env (length (trace s)) (POST graphql_url (headers s) (query_graphql env) since) = Inr r \<longrightarrow>
    raise_for_status r = Inr () \<longrightarrow> response_nodes r = Inr (JArr nodes) \<longrightarrow>
    (\<forall>n\<in>set nodes. \<exists>t. getitem n ''__typename'' = Inr t) \<longrightarrow>
      fst (fetch_hacktivity env since s) = Inr (filter is_disclosed nodes)) \<and>
   (fst (fetch_hacktivity env since s) = Inr evs \<longrightarrow> (\<forall>ev\<in>set evs. is_disclosed ev)) \<and>
   (\<forall>p\<in>set (slack_posts (trace (snd (main env n)))). is_disclosed p) \<and>
   (\<forall>k\<in>seen (snd (main env n)).
      \<exists>p\<in>set (slack_posts (trace (snd (main env n)))). is_disclosed p \<and> report_key p = Inr k)"
proof (intro conjI impI)
  assume a: "http env (length (trace s)) (POST graphql_url (headers s) (query_graphql env) since) = Inr r"
    and b: "raise_for_status r = Inr ()" and c: "response_nodes r = Inr (JArr nodes)"
    and "\<forall>n\<in>set nodes. \<exists>t. getitem n ''__typename'' = Inr t"
  then show "fst (fetch_hacktivity env since s) = Inr (filter is_disclosed nodes)"
    by (rule fetch_hacktivity_filters)
next
  assume "fst (fetch_hacktivity env since s) = Inr evs"
  then show "\<forall>ev\<in>set evs. is_disclosed ev" by (rule fst_fetch_hacktivity_disclosed)
next
  show "\<forall>p\<in>set (slack_posts (trace (snd (main env n)))). is_disclosed p"
    by (rule main_disclosed)
next
  show "\<forall>k\<in>seen (snd (main env n)).
      \<exists>p\<in>set (slack_posts (trace (snd (main env n)))). is_disclosed p \<and> report_key p = Inr k"
    using main_disclosed [of env n] main_seen_posted [of _ env n] by blast
qed

theorem worker_fetch_keeps_disclosed_witness:
  "fst (fetch_hacktivity (up_env mixed_nodes) 0 (worker_init (up_env mixed_nodes))) =
     Inr [report_node ''Disclosed'' ''1'', report_node ''Disclosed'' ''3''] \<and>
   slack_posts (trace (snd (main (up_env mixed_nodes) 2))) =
     [report_node ''Disclosed'' ''1'', report_node ''Disclosed'' ''3''] \<and>
   seen (snd (main (up_env mixed_nodes) 2)) = {KStr ''1'', KStr ''3''}"
proof -
  let ?env = "up_env mixed_nodes"
  have a: "http ?env (length (trace (worker_init ?env)))
             (POST graphql_url (headers (worker_init ?env)) (query_graphql ?env) 0) =
           Inr (nodes_response mixed_nodes)"
    by (simp add: up_env_def test_env_def open_server_def)
  have b: "raise_for_status (nodes_response mixed_nodes) = Inr ()"
    by (simp add: raise_for_status_def nodes_response_def)
  have c: "response_nodes (nodes_response mixed_nodes) = Inr (JArr mixed_nodes)"
    by (simp add: response_nodes_def nodes_response_def and_then_def)
  have d: "\<forall>n\<in>set mixed_nodes. \<exists>t. getitem n ''__typename'' = Inr t"
    by (simp add: mixed_nodes_def report_node_def)
  have e: "filter is_disclosed mixed_nodes =
             [report_node ''Disclosed'' ''1'', report_node ''Disclosed'' ''3'']"
    by (simp add: mixed_nodes_def report_node_def is_disclosed_def)
  have f: "slack_posts (trace (snd (main ?env 2))) =
             [report_node ''Disclosed'' ''1'', report_node ''Disclosed'' ''3'']"
    by code_simp
  have g: "seen (snd (main ?env 2)) = {KStr ''1'', KStr ''3''}"
    by code_simp
  show ?thesis
    using worker_fetch_keeps_disclosed [of ?env "worker_init ?env" 0 "nodes_response mixed_nodes"
        mixed_nodes "[]" 2] a b c d e f g
    by simp
qed

text \<open>
  C5 as the specification words it fails for the poll lambda: its fetch returns the node
  with the discriminator \<^verbatim>\<open>Other\<close> along with the two disclosures, and the handler
  sends all three to the queue.
\<close>

theorem poll_fetch_unfiltered_counterexample:
  "fst (poll_fetch_hacktivity (up_env mixed_nodes) 0 (poll_init (up_env mixed_nodes))) =
     Inr (JArr [report_node ''Disclosed'' ''1'', report_node ''Other'' ''2'',
                report_node ''Disclosed'' ''3'']) \<and>
   \<not> is_disclosed (report_node ''Other'' ''2'') \<and>
   map MessageBody (sent_messages (trace (snd (lambda_handler (up_env mixed_nodes))))) =
     [report_node ''Disclosed'' ''1'', report_node ''Other'' ''2'', report_node ''Disclosed'' ''3'']"
  by code_simp

text \<open>
  C6. Every fetch of a worker cycle has as its window start the reading of the clock made
  in that cycle minus 900000000 microseconds (15 minutes); when the clock reading of the
  next cycle is later than that of this cycle, every window start of the next cycle is
  later than every window start of this one. The fetch of the poll lambda, made once its
  refresh has returned, has the clock reading of that invocation minus 240000000
  microseconds (4 minutes).
\<close>

theorem window_computed_each_cycle:
  "set (windows (issued env s)) = {utcnow env (length (trace s)) - 900000000} \<and>
   (utcnow env (length (trace s)) <
      utcnow env (length (trace (snd (sleep env 60 (handle (cycle env s)))))) \<longrightarrow>
    (\<forall>t\<in>set (windows (issued env s)).
       \<forall>t'\<in>set (windows (issued env (snd (sleep env 60 (handle (cycle env s)))))). t < t')) \<and>
   windows (requests_of (trace (snd (lambda_handler env)))) =
     (case fst (poll_refresh_csrf env (poll_init env)) of
        Inl e \<Rightarrow> []
      | Inr u \<Rightarrow> [utcnow env 1 - 240000000])"
  using windows_issued [of env s] windows_issued [of env "snd (sleep env 60 (handle (cycle env s)))"]
    windows_lambda [of env]
  by (simp add: timedelta_minutes_def cong: sum.case_cong)

theorem window_computed_each_cycle_witness:
  "utcnow (up_env [report_node ''Disclosed'' ''1''])
     (length (trace (worker_init (up_env [report_node ''Disclosed'' ''1''])))) <
   utcnow (up_env [report_node ''Disclosed'' ''1''])
     (length (trace (snd (sleep (up_env [report_node ''Disclosed'' ''1'']) 60
        (handle (cycle (up_env [report_node ''Disclosed'' ''1''])
           (worker_init (up_env [report_node ''Disclosed'' ''1'']))))))))  \<and>
   windows (issued (up_env [report_node ''Disclosed'' ''1''])
     (worker_init (up_env [report_node ''Disclosed'' ''1'']))) = [100000000] \<and>
   windows (issued (up_env [report_node ''Disclosed'' ''1''])
     (snd (sleep (up_env [report_node ''Disclosed'' ''1'']) 60
        (handle (cycle (up_env [report_node ''Disclosed'' ''1''])
           (worker_init (up_env [report_node ''Disclosed'' ''1'']))))))) = [405000000] \<and>
   windows (requests_of (trace (snd (lambda_handler (up_env [report_node ''Disclosed'' ''1'']))))) =
     [821000000]"
proof -
  let ?env = "up_env [report_node ''Disclosed'' ''1'']"
  have a: "utcnow ?env (length (trace (worker_init ?env))) <
           utcnow ?env (length (trace (snd (sleep ?env 60 (handle (cycle ?env (worker_init ?env)))))))"
    by code_simp
  have b: "windows (issued ?env (worker_init ?env)) = [100000000]"
    by code_simp
  have c: "windows (issued ?env (snd (sleep ?env 60 (handle (cycle ?env (worker_init ?env)))))) =
             [405000000]"
    by code_simp
  have d: "windows (requests_of (trace (snd (lambda_handler ?env)))) = [821000000]"
    by code_simp
  show ?thesis
    using window_computed_each_cycle [of ?env "worker_init ?env"] a b c d by simp
qed

text \<open>
  C7. When a cycle raises an exception other than \<^verbatim>\<open>KeyboardInterrupt\<close> (and the sleep
  returns), the loop logs it, sleeps 60 seconds and goes on with the next cycle; when a
  cycle raises \<^verbatim>\<open>KeyboardInterrupt\<close> the loop stops. So when the environment never
  answers with \<^verbatim>\<open>KeyboardInterrupt\<close> and every sleep returns, then whatever else is
  raised, after any number \<open>n\<close> of cycles the loop is still running and has slept \<open>n\<close>
  times.
\<close>

theorem loop_survives_exceptions:
  "(fst (cycle env s) = Inl e \<longrightarrow> e \<noteq> KeyboardInterrupt \<longrightarrow>
      sleeping env (Suc (length (trace (snd (cycle env s))))) = None \<longrightarrow>
      main_loop env (Suc n) s =
        main_loop env n (emit (Sleep 60) (emit (LogException e) (snd (cycle env s))))) \<and>
   (fst (cycle env s) = Inl KeyboardInterrupt \<longrightarrow>
      main_loop env (Suc n) s = (Stopped, snd (cycle env s))) \<and>
   ((\<forall>i rq. http env i rq \<noteq> Inl KeyboardInterrupt) \<longrightarrow>
    (\<forall>i p. slack env i p \<noteq> Some KeyboardInterrupt) \<longrightarrow>
    (\<forall>i. sleeping env i = None) \<longrightarrow>
      fst (main_loop env n s) = Running \<and>
      sleeps (trace (snd (main_loop env n s))) = sleeps (trace s) + n)"
proof (intro conjI impI)
  assume a: "fst (cycle env s) = Inl e" and b: "e \<noteq> KeyboardInterrupt"
    and c: "sleeping env (Suc (length (trace (snd (cycle env s))))) = None"
  have h: "handle (cycle env s) = emit (LogException e) (snd (cycle env s))"
    using a by (simp add: handle_def)
  show "main_loop env (Suc n) s =
          main_loop env n (emit (Sleep 60) (emit (LogException e) (snd (cycle env s))))"
    using a b c by (simp only: main_loop_Suc h) (simp add: sleep_def)
next
  assume "fst (cycle env s) = Inl KeyboardInterrupt"
  then show "main_loop env (Suc n) s = (Stopped, snd (cycle env s))"
    by (simp only: main_loop_Suc) simp
next
  assume "\<forall>i rq. http env i rq \<noteq> Inl KeyboardInterrupt"
    and "\<forall>i p. slack env i p \<noteq> Some KeyboardInterrupt" and "\<forall>i. sleeping env i = None"
  then show "fst (main_loop env n s) = Running"
    using main_loop_running by blast
next
  assume "\<forall>i rq. http env i rq \<noteq> Inl KeyboardInterrupt"
    and "\<forall>i p. slack env i p \<noteq> Some KeyboardInterrupt" and "\<forall>i. sleeping env i = None"
  then show "sleeps (trace (snd (main_loop env n s))) = sleeps (trace s) + n"
    using main_loop_running by blast
qed

theorem loop_survives_exceptions_witness:
  "fst (cycle offline_env (worker_init offline_env)) = Inl (OtherException ''ConnectionError'') \<and>
   main_loop offline_env (Suc 2) (worker_init offline_env) =
     main_loop offline_env 2
       (emit (Sleep 60) (emit (LogException (OtherException ''ConnectionError''))
          (snd (cycle offline_env (worker_init offline_env))))) \<and>
   fst (main_loop offline_env 3 (worker_init offline_env)) = Running \<and>
   sleeps (trace (snd (main_loop offline_env 3 (worker_init offline_env)))) = 3"
proof -
  have a: "fst (cycle offline_env (worker_init offline_env)) = Inl (OtherException ''ConnectionError'')"
    by code_simp
  have b: "\<forall>i rq. http offline_env i rq \<noteq> Inl KeyboardInterrupt"
    by (simp add: offline_env_def test_env_def)
  have c: "\<forall>i p. slack offline_env i p \<noteq> Some KeyboardInterrupt"
    by (simp add: offline_env_def test_env_def slack_up_def)
  have d: "\<forall>i. sleeping offline_env i = None"
    by (simp add: offline_env_def test_env_def)
  have e: "sleeps (trace (worker_init offline_env)) = 0"
    by (simp add: worker_init_def)
  show ?thesis
    using loop_survives_exceptions [of offline_env "worker_init offline_env"
        "OtherException ''ConnectionError''" 2]
      loop_survives_exceptions [of offline_env "worker_init offline_env"
        "OtherException ''ConnectionError''" 3] a b c d e
    by (simp add: numeral_3_eq_3)
qed




text \<open>
  C9. The first request of every worker cycle is the fetch, sent with the headers that the
  session had when the cycle began; the cycle issues a refresh exactly when that fetch
  failed with status 500 and the marker, and then only one. The first request of the
  worker process is the fetch with the headers of the fresh session and the user agent.
  The first request of the poll lambda is the refresh.
\<close>

theorem no_refresh_before_first_fetch:
  "take 1 (issued env s) = [fetch_request env s (utcnow env (length (trace s)) - timedelta_minutes 15)] \<and>
   filter is_refresh (issued env s) =
     (if expired_failure (fst (first_fetch env s)) then [GET hacktivity_url (headers s)] else []) \<and>
   take 1 (requests_of (trace (snd (main env (Suc n))))) =
     [POST graphql_url (AList.update ''User-Agent'' user_agent (default_headers env))
        (query_graphql env) (utcnow env 0 - timedelta_minutes 15)] \<and>
   take 1 (requests_of (trace (snd (lambda_handler env)))) =
     [GET hacktivity_url (default_headers env)]"
proof (intro conjI)
  show "take 1 (issued env s) =
          [fetch_request env s (utcnow env (length (trace s)) - timedelta_minutes 15)]"
    using take1_issued [of env s] by (simp add: cycle_now_def)
  show "filter is_refresh (issued env s) =
     (if expired_failure (fst (first_fetch env s)) then [GET hacktivity_url (headers s)] else [])"
    by (rule refreshes_issued)
  obtain rest where "requests_of (trace (snd (main env (Suc n)))) = issued env (worker_init env) @ rest"
    using main_first_requests by blast
  then have "take 1 (requests_of (trace (snd (main env (Suc n))))) = take 1 (issued env (worker_init env))"
    by (simp add: issued_shape)
  then show "take 1 (requests_of (trace (snd (main env (Suc n))))) =
     [POST graphql_url (AList.update ''User-Agent'' user_agent (default_headers env))
        (query_graphql env) (utcnow env 0 - timedelta_minutes 15)]"
    using take1_issued [of env "worker_init env"]
    by (simp add: fetch_request_def cycle_now_def worker_init_def)
  show "take 1 (requests_of (trace (snd (lambda_handler env)))) =
     [GET hacktivity_url (default_headers env)]"
    by (simp add: lambda_requests)
qed

theorem no_refresh_before_first_fetch_witness:
  "requests_of (trace (snd (main (token_env 200 [report_node ''Disclosed'' ''1'']) (Suc 0)))) =
     [POST graphql_url [(''User-Agent'', user_agent)] ''query'' 100000000,
      GET hacktivity_url [(''User-Agent'', user_agent)],
      POST graphql_url [(''User-Agent'', user_agent), (''x-csrf-token'', ''tok'')] ''query'' 100000000] \<and>
   take 1 (requests_of (trace (snd (main (token_env 200 [report_node ''Disclosed'' ''1'']) (Suc 0))))) =
     [POST graphql_url [(''User-Agent'', user_agent)] ''query'' 100000000] \<and>
   requests_of (trace (snd (lambda_handler (token_env 200 [report_node ''Disclosed'' ''1''])))) =
     [GET hacktivity_url [],
      POST graphql_url [(''x-csrf-token'', ''tok'')] ''query'' 821000000]"
proof -
  let ?env = "token_env 200 [report_node ''Disclosed'' ''1'']"
  have a: "requests_of (trace (snd (main ?env (Suc 0)))) =
     [POST graphql_url [(''User-Agent'', user_agent)] ''query'' 100000000,
      GET hacktivity_url [(''User-Agent'', user_agent)],
      POST graphql_url [(''User-Agent'', user_agent), (''x-csrf-token'', ''tok'')] ''query'' 100000000]"
    by code_simp
  have b: "requests_of (trace (snd (lambda_handler ?env))) =
     [GET hacktivity_url [],
      POST graphql_url [(''x-csrf-token'', ''tok'')] ''query'' 821000000]"
    by code_simp
  have c: "AList.update ''User-Agent'' user_agent (default_headers ?env) = [(''User-Agent'', user_agent)]"
       "query_graphql ?env = ''query''" "utcnow ?env 0 - timedelta_minutes 15 = 100000000"
    by (simp_all add: token_env_def test_env_def timedelta_minutes_def)
  show ?thesis
    using no_refresh_before_first_fetch [of ?env "worker_init ?env" 0] a b
    by (simp add: c)
qed



end
